theory Spec2Isabelle
  imports Main "HOL-Library.Word"
begin

section \<open>The accessibility adapter of QScintilla (Qt4Qt5/SciAccessibility.cpp)\<close>

text \<open>
  The adapter sits between two parties it does not own: the text engine, reached
  through \<open>sb->SendScintilla(msg, wParam, lParam)\<close>, and Qt (strings, byte arrays,
  the accessibility event queue). Both are parameters of the embedding: a widget is
  the record of what its engine answers, the Qt string conversions are a record of
  four functions. Where a property is about what the engine or Qt does, a model of
  it, marked as such, takes the parameter's place. C++ \<open>int\<close> and \<open>long\<close> are
  \<open>int\<close>; no operation of the file comes near the ends of their range.
\<close>

subsection \<open>The engine and Qt, as the adapter sees them\<close>

type_synonym byte = "8 word"
type_synonym QChar = "16 word"
type_synonym QString = "QChar list"
type_synonym QByteArray = "byte list"
type_synonym QPoint = "int \<times> int"
type_synonym ptr = nat

text \<open>The engine messages the modelled functions send.\<close>

datatype sci_msg =
    SCI_GETCODEPAGE
  | SCI_POSITIONRELATIVE
  | SCI_POSITIONAFTER
  | SCI_POSITIONBEFORE
  | SCI_GETSTYLEAT
  | SCI_GETTEXTLENGTH
  | SCI_GETCURRENTPOS
  | SCI_GETSELECTIONSTART
  | SCI_GETSELECTIONEND
  | SCI_GETTEXTRANGE
  | SCI_POSITIONFROMPOINT

text \<open>
  A widget, dereferenced: \<open>SendScintilla msg wParam lParam\<close> is the engine's answer
  (an omitted parameter of the C++ overloads is 0); \<open>SendScintilla_buf msg cpMin cpMax\<close>
  is the bytes the overload with a \<open>char *\<close> stores in the caller's buffer, before
  the NUL it ends them with; \<open>mapFromGlobal\<close> is \<open>viewport()->mapFromGlobal\<close>.
\<close>

record QsciScintillaBase =
  SendScintilla :: "sci_msg \<Rightarrow> int \<Rightarrow> int \<Rightarrow> int"
  SendScintilla_buf :: "sci_msg \<Rightarrow> int \<Rightarrow> int \<Rightarrow> byte list"
  mapFromGlobal :: "QPoint \<Rightarrow> QPoint"

definition SC_CP_UTF8 :: int where
  "SC_CP_UTF8 = 65001"

text \<open>Qt's conversions between byte strings and \<open>QString\<close>.\<close>

record Qt_codecs =
  fromUtf8 :: "byte list \<Rightarrow> QString"
  toUtf8 :: "QString \<Rightarrow> QByteArray"
  fromLatin1 :: "byte list \<Rightarrow> QString"
  toLatin1 :: "QString \<Rightarrow> QByteArray"

subsection \<open>Bytes and text, byte positions and text positions\<close>

text \<open>\<open>bytes\<close> is the first \<open>length\<close> bytes at the C++ pointer.\<close>

definition bytesAsText :: "Qt_codecs \<Rightarrow> QsciScintillaBase \<Rightarrow> byte list \<Rightarrow> QString" where
  "bytesAsText qt sb bytes =
     (if SendScintilla sb SCI_GETCODEPAGE 0 0 = SC_CP_UTF8 then fromUtf8 qt bytes
      else fromLatin1 qt bytes)"

definition textAsBytes :: "Qt_codecs \<Rightarrow> QsciScintillaBase \<Rightarrow> QString \<Rightarrow> QByteArray" where
  "textAsBytes qt sb text =
     (if SendScintilla sb SCI_GETCODEPAGE 0 0 = SC_CP_UTF8 then toUtf8 qt text
      else toLatin1 qt text)"

definition positionAsTextPosition :: "QsciScintillaBase \<Rightarrow> int \<Rightarrow> int" where
  "positionAsTextPosition sb position = SendScintilla sb SCI_POSITIONRELATIVE 0 position"

text \<open>The \<open>for\<close> loop of \<open>textPositionAsPosition\<close>, entered with \<open>p\<close> and \<open>position\<close>.\<close>

function textPositionAsPosition_loop ::
  "QsciScintillaBase \<Rightarrow> int \<Rightarrow> int \<Rightarrow> int \<Rightarrow> int" where
  "textPositionAsPosition_loop sb textPosition p position =
     (if p < textPosition
      then textPositionAsPosition_loop sb textPosition (p + 1)
             (SendScintilla sb SCI_POSITIONAFTER position 0)
      else position)"
  by pat_completeness auto
termination
  by (relation "measure (\<lambda>(sb, textPosition, p, position). nat (textPosition - p))") auto

declare textPositionAsPosition_loop.simps [simp del]

definition textPositionAsPosition :: "QsciScintillaBase \<Rightarrow> int \<Rightarrow> int" where
  "textPositionAsPosition sb textPosition = textPositionAsPosition_loop sb textPosition 0 0"

subsection \<open>The adapter objects and the static state\<close>

record QsciAccessibleScintillaBase =
  widget :: ptr
  current_cursor_position :: int
  is_selection :: bool

datatype QAccessibleEvent =
    QAccessibleTextInsertEvent ptr int QString
  | QAccessibleTextRemoveEvent ptr int QString
  | QAccessibleTextCursorEvent ptr int

datatype InterfaceFactory = factory

text \<open>
  The static members, with the two things of Qt the file writes to: the factories
  given to \<open>QAccessible::installFactory\<close> and the events given to
  \<open>QAccessible::updateAccessibility\<close>, both in call order. \<open>all_accessibles\<close> holds
  the live adapter objects themselves (the C++ list holds a pointer to each, once); an
  object is named by its place in the list.
\<close>

record adapter =
  needs_initialising :: bool
  all_accessibles :: "QsciAccessibleScintillaBase list"
  installFactory :: "InterfaceFactory list"
  updateAccessibility :: "QAccessibleEvent list"

definition initial :: adapter where
  "initial = \<lparr>needs_initialising = True, all_accessibles = [],
     installFactory = [], updateAccessibility = []\<rparr>"

definition ctor :: "adapter \<Rightarrow> ptr \<Rightarrow> adapter" where
  "ctor st w = st\<lparr>all_accessibles := all_accessibles st @
     [\<lparr>widget = w, current_cursor_position = - 1, is_selection = False\<rparr>]\<rparr>"

text \<open>The destructor of the object at place \<open>this\<close>.\<close>

definition dtor :: "adapter \<Rightarrow> nat \<Rightarrow> adapter" where
  "dtor st this = st\<lparr>all_accessibles :=
     take this (all_accessibles st) @ drop (Suc this) (all_accessibles st)\<rparr>"

definition initialise :: "adapter \<Rightarrow> adapter" where
  "initialise st =
     (if needs_initialising st
      then st\<lparr>installFactory := installFactory st @ [factory], needs_initialising := False\<rparr>
      else st)"

definition sciWidget :: "QsciAccessibleScintillaBase \<Rightarrow> ptr" where
  "sciWidget acc = widget acc"

text \<open>The loop of \<open>findAccessible\<close> from index \<open>i\<close> on; \<open>None\<close> is the null pointer.\<close>

fun findAccessible_loop :: "QsciAccessibleScintillaBase list \<Rightarrow> nat \<Rightarrow> ptr \<Rightarrow> nat option" where
  "findAccessible_loop [] i sb = None"
| "findAccessible_loop (acc_sb # rest) i sb =
     (if sciWidget acc_sb = sb then Some i else findAccessible_loop rest (Suc i) sb)"

definition findAccessible :: "adapter \<Rightarrow> ptr \<Rightarrow> nat option" where
  "findAccessible st sb = findAccessible_loop (all_accessibles st) 0 sb"

definition selectionChanged :: "adapter \<Rightarrow> ptr \<Rightarrow> bool \<Rightarrow> adapter" where
  "selectionChanged st sb selection =
     (case findAccessible st sb of
        None \<Rightarrow> st
      | Some acc_sb \<Rightarrow>
          st\<lparr>all_accessibles := (all_accessibles st)
            [acc_sb := (all_accessibles st ! acc_sb)\<lparr>is_selection := selection\<rparr>]\<rparr>)"

text \<open>
  The functions that take \<open>QsciScintillaBase *sb\<close> and send it messages get the
  pointer and the widgets it may point to, \<open>widgets :: ptr \<Rightarrow> QsciScintillaBase\<close>.
  In \<open>textInserted\<close> and \<open>textDeleted\<close>, \<open>text\<close> is the first \<open>length\<close> bytes at the
  pointer, or \<open>None\<close> for a null pointer, where \<open>Q_ASSERT(text)\<close> stops the
  program: the result \<open>None\<close>.
\<close>

definition textInserted ::
  "Qt_codecs \<Rightarrow> (ptr \<Rightarrow> QsciScintillaBase) \<Rightarrow> adapter \<Rightarrow> ptr \<Rightarrow> int \<Rightarrow> byte list option \<Rightarrow>
     adapter option" where
  "textInserted qt widgets st sb position text =
     (case text of
        None \<Rightarrow> None
      | Some bytes \<Rightarrow>
          (let new_text = bytesAsText qt (widgets sb) bytes;
               text_position = positionAsTextPosition (widgets sb) position
           in Some (st\<lparr>updateAccessibility := updateAccessibility st @
                [QAccessibleTextInsertEvent sb text_position new_text]\<rparr>)))"

definition textDeleted ::
  "Qt_codecs \<Rightarrow> (ptr \<Rightarrow> QsciScintillaBase) \<Rightarrow> adapter \<Rightarrow> ptr \<Rightarrow> int \<Rightarrow> byte list option \<Rightarrow>
     adapter option" where
  "textDeleted qt widgets st sb position text =
     (case text of
        None \<Rightarrow> None
      | Some bytes \<Rightarrow>
          (let old_text = bytesAsText qt (widgets sb) bytes;
               text_position = positionAsTextPosition (widgets sb) position
           in Some (st\<lparr>updateAccessibility := updateAccessibility st @
                [QAccessibleTextRemoveEvent sb text_position old_text]\<rparr>)))"

definition updated :: "(ptr \<Rightarrow> QsciScintillaBase) \<Rightarrow> adapter \<Rightarrow> ptr \<Rightarrow> adapter" where
  "updated widgets st sb =
     (case findAccessible st sb of
        None \<Rightarrow> st
      | Some acc_sb \<Rightarrow>
          (let cursor_position = positionAsTextPosition (widgets sb)
                 (SendScintilla (widgets sb) SCI_GETCURRENTPOS 0 0)
           in if current_cursor_position (all_accessibles st ! acc_sb) \<noteq> cursor_position
              then st\<lparr>all_accessibles := (all_accessibles st)
                       [acc_sb := (all_accessibles st ! acc_sb)
                          \<lparr>current_cursor_position := cursor_position\<rparr>],
                     updateAccessibility := updateAccessibility st @
                       [QAccessibleTextCursorEvent sb cursor_position]\<rparr>
              else st))"

text \<open>
  The states the static members and the adapter objects can be in: what the
  operations of the file make of the state the static initialisers set up, whatever
  the widgets are when an operation runs.
\<close>

inductive reachable :: "adapter \<Rightarrow> bool" where
  reachable_initial: "reachable initial"
| reachable_initialise: "reachable st \<Longrightarrow> reachable (initialise st)"
| reachable_ctor: "reachable st \<Longrightarrow> reachable (ctor st w)"
| reachable_dtor: "reachable st \<Longrightarrow> this < length (all_accessibles st) \<Longrightarrow> reachable (dtor st this)"
| reachable_selectionChanged: "reachable st \<Longrightarrow> reachable (selectionChanged st sb selection)"
| reachable_textInserted:
    "reachable st \<Longrightarrow> textInserted qt widgets st sb position text = Some st' \<Longrightarrow> reachable st'"
| reachable_textDeleted:
    "reachable st \<Longrightarrow> textDeleted qt widgets st sb position text = Some st' \<Longrightarrow> reachable st'"
| reachable_updated: "reachable st \<Longrightarrow> reachable (updated widgets st sb)"

subsection \<open>The text interface\<close>

text \<open>
  A member function gets its object \<open>acc\<close> where it reads a field, and \<open>sb\<close>, the
  widget \<open>sciWidget()\<close> points to. \<open>selection\<close> returns what it stores in
  \<open>*startOffset\<close> and \<open>*endOffset\<close>.
\<close>

definition selection ::
  "QsciScintillaBase \<Rightarrow> QsciAccessibleScintillaBase \<Rightarrow> int \<Rightarrow> int \<times> int" where
  "selection sb acc selectionIndex =
     (if selectionIndex = 0 \<and> is_selection acc
      then (let start_position = SendScintilla sb SCI_GETSELECTIONSTART 0 0;
                end_position = SendScintilla sb SCI_GETSELECTIONEND 0 0
            in (positionAsTextPosition sb start_position,
                positionAsTextPosition sb end_position))
      else (0, 0))"

definition selectionCount :: "QsciAccessibleScintillaBase \<Rightarrow> int" where
  "selectionCount acc = (if is_selection acc then 1 else 0)"

definition cursorPosition :: "QsciAccessibleScintillaBase \<Rightarrow> int" where
  "cursorPosition acc = current_cursor_position acc"

text \<open>
  \<open>text(startOffset, endOffset)\<close>, here \<open>text_range\<close> (Isabelle keeps the word
  \<open>text\<close> for itself). The buffer is \<open>byte_end - byte_start + 1\<close> NUL
  bytes; the engine stores its bytes and a NUL at the start of it, and all but the
  last byte of the buffer are converted. \<open>None\<close>: the engine would write past the end
  of the buffer (or the buffer has no byte at all), which C++ leaves undefined.
\<close>

definition text_range ::
  "Qt_codecs \<Rightarrow> QsciScintillaBase \<Rightarrow> int \<Rightarrow> int \<Rightarrow> QString option" where
  "text_range qt sb startOffset endOffset =
     (let byte_start = textPositionAsPosition sb startOffset;
          byte_end = textPositionAsPosition sb endOffset;
          size = byte_end - byte_start + 1;
          stored = SendScintilla_buf sb SCI_GETTEXTRANGE byte_start byte_end
      in if size \<le> int (length stored) then None
         else (let bytes = stored @ replicate (nat size - length stored) 0
               in Some (bytesAsText qt sb (take (nat size - 1) bytes))))"

definition characterCount :: "QsciScintillaBase \<Rightarrow> int" where
  "characterCount sb = positionAsTextPosition sb (SendScintilla sb SCI_GETTEXTLENGTH 0 0)"

definition offsetAtPoint :: "QsciScintillaBase \<Rightarrow> QPoint \<Rightarrow> int" where
  "offsetAtPoint sb point =
     (let p = mapFromGlobal sb point;
          position = SendScintilla sb SCI_POSITIONFROMPOINT (fst p) (snd p)
      in if position \<ge> 0 then positionAsTextPosition sb position else - 1)"

subsection \<open>What the adapter objects should hold\<close>

text \<open>
  A record kept beside the state, to say what \<open>cursorPosition\<close> should return: for
  every live adapter object, in the order of \<open>all_accessibles\<close>, its widget and the
  value the last \<open>updated\<close> that found the object got from the engine, \<open>None\<close> when
  no \<open>updated\<close> has found it since it was made. \<open>updated(sb)\<close> finds the first object
  of the widget \<open>sb\<close>.
\<close>

type_synonym cursor_log = "(ptr \<times> int option) list"

fun log_updated :: "ptr \<Rightarrow> int \<Rightarrow> cursor_log \<Rightarrow> cursor_log" where
  "log_updated sb v [] = []"
| "log_updated sb v ((w, seen) # rest) =
     (if w = sb then (w, Some v) # rest else (w, seen) # log_updated sb v rest)"

text \<open>What an object with this entry should show: its widget, and \<open>- 1\<close> or the value.\<close>

definition held :: "ptr \<times> int option \<Rightarrow> ptr \<times> int" where
  "held entry = (fst entry, case snd entry of None \<Rightarrow> - 1 | Some v \<Rightarrow> v)"

text \<open>
  The record each operation of the file leaves. The value \<open>updated\<close> notes is the
  engine's answer to \<open>SCI_POSITIONRELATIVE\<close> for 0 and its cursor position
  (\<open>SCI_GETCURRENTPOS\<close>) at that call.
\<close>

inductive history :: "adapter \<Rightarrow> cursor_log \<Rightarrow> bool" where
  history_initial: "history initial []"
| history_initialise: "history st hist \<Longrightarrow> history (initialise st) hist"
| history_ctor: "history st hist \<Longrightarrow> history (ctor st w) (hist @ [(w, None)])"
| history_dtor:
    "history st hist \<Longrightarrow> this < length (all_accessibles st) \<Longrightarrow>
       history (dtor st this) (take this hist @ drop (Suc this) hist)"
| history_selectionChanged: "history st hist \<Longrightarrow> history (selectionChanged st sb sel) hist"
| history_textInserted:
    "history st hist \<Longrightarrow> textInserted qt widgets st sb position text = Some st' \<Longrightarrow>
       history st' hist"
| history_textDeleted:
    "history st hist \<Longrightarrow> textDeleted qt widgets st sb position text = Some st' \<Longrightarrow>
       history st' hist"
| history_updated:
    "history st hist \<Longrightarrow>
       history (updated widgets st sb)
         (log_updated sb
            (SendScintilla (widgets sb) SCI_POSITIONRELATIVE 0
               (SendScintilla (widgets sb) SCI_GETCURRENTPOS 0 0)) hist)"

text \<open>What an adapter object shows: its widget and what \<open>cursorPosition\<close> returns.\<close>

definition shown :: "QsciAccessibleScintillaBase \<Rightarrow> ptr \<times> int" where
  "shown acc = (sciWidget acc, cursorPosition acc)"

subsection \<open>The style run around a character\<close>

text \<open>
  The two \<open>while\<close> loops of \<open>attributes\<close>. Whether they end is up to the engine
  (a \<open>SCI_POSITIONBEFORE\<close> that does not move back keeps the first one running), so
  each is a partial function: \<open>None\<close> is a loop that never ends.
\<close>

partial_function (option) attributes_start ::
  "QsciScintillaBase \<Rightarrow> int \<Rightarrow> int \<Rightarrow> int \<Rightarrow> int option" where
  "attributes_start sb style start_position start_text_position =
     (if start_position > 0
      then (let before = SendScintilla sb SCI_POSITIONBEFORE start_position 0;
                s = SendScintilla sb SCI_GETSTYLEAT before 0
            in if s \<noteq> style then Some start_text_position
               else attributes_start sb style before (start_text_position - 1))
      else Some start_text_position)"

partial_function (option) attributes_end ::
  "QsciScintillaBase \<Rightarrow> int \<Rightarrow> int \<Rightarrow> int \<Rightarrow> int \<Rightarrow> int option" where
  "attributes_end sb style last_position end_position end_text_position =
     (if end_position < last_position
      then (let s = SendScintilla sb SCI_GETSTYLEAT end_position 0
            in if s \<noteq> style then Some end_text_position
               else attributes_end sb style last_position
                      (SendScintilla sb SCI_POSITIONAFTER end_position 0)
                      (end_text_position + 1))
      else Some end_text_position)"

declare attributes_start.simps [code]
declare attributes_end.simps [code]

text \<open>
  \<open>attributes(offset, &startOffset, &endOffset)\<close>, as the pair it stores in
  \<open>*startOffset\<close> and \<open>*endOffset\<close>. The attribute string it returns is built from
  \<open>style\<close> alone, after both offsets are stored, and is left out.
\<close>

definition attributes :: "QsciScintillaBase \<Rightarrow> int \<Rightarrow> (int \<times> int) option" where
  "attributes sb offset =
     (let position = textPositionAsPosition sb offset;
          style = SendScintilla sb SCI_GETSTYLEAT position 0
      in case attributes_start sb style position offset of
           None \<Rightarrow> None
         | Some startOffset \<Rightarrow>
             (let end_position = SendScintilla sb SCI_POSITIONAFTER position 0;
                  last_position = SendScintilla sb SCI_GETTEXTLENGTH 0 0
              in case attributes_end sb style last_position end_position (offset + 1) of
                   None \<Rightarrow> None
                 | Some endOffset \<Rightarrow> Some (startOffset, endOffset)))"

subsection \<open>What the adapter relies on in an engine\<close>

text \<open>
  The style of the character at a text position, read the way \<open>attributes\<close> and
  \<open>characterRect\<close> read it: the style at the byte position of the character.
\<close>

definition character_style :: "QsciScintillaBase \<Rightarrow> int \<Rightarrow> int" where
  "character_style sb t = SendScintilla sb SCI_GETSTYLEAT (textPositionAsPosition sb t) 0"

text \<open>
  The document of \<open>sb\<close> has \<open>n\<close> characters: from byte 0, \<open>SCI_POSITIONAFTER\<close> moves
  forward \<open>n\<close> times, \<open>SCI_POSITIONBEFORE\<close> takes each move back, and the last move ends
  at the text length.
\<close>

definition characters :: "QsciScintillaBase \<Rightarrow> int \<Rightarrow> bool" where
  "characters sb n \<longleftrightarrow>
     0 \<le> n \<and>
     (\<forall>t\<in>{0..<n}.
        textPositionAsPosition sb t < textPositionAsPosition sb (t + 1) \<and>
        SendScintilla sb SCI_POSITIONBEFORE (textPositionAsPosition sb (t + 1)) 0 =
          textPositionAsPosition sb t) \<and>
     textPositionAsPosition sb n = SendScintilla sb SCI_GETTEXTLENGTH 0 0"

text \<open>
  For a range of bytes within the document, \<open>SCI_GETTEXTRANGE\<close> stores as many bytes
  as the range has.
\<close>

definition stores_range :: "QsciScintillaBase \<Rightarrow> bool" where
  "stores_range sb \<longleftrightarrow>
     (\<forall>cpMin\<in>{0..SendScintilla sb SCI_GETTEXTLENGTH 0 0}.
        \<forall>cpMax\<in>{cpMin..SendScintilla sb SCI_GETTEXTLENGTH 0 0}.
          int (length (SendScintilla_buf sb SCI_GETTEXTRANGE cpMin cpMax)) = cpMax - cpMin)"

subsection \<open>A document engine\<close>

text \<open>
  Modelled from the spec: the text engine behind \<open>SendScintilla\<close> (to the spec a
  "text-engine command protocol (send-message style)" with positions that are "raw
  internal byte offsets", a fixed external interface) is not among the sources. The
  definitions of this subsection are an engine to run the adapter on: a document as
  that protocol presents one, and its answers to the messages the adapter sends. The
  characters of a document are given with it, the same for every message: how an
  encoding splits bytes into characters is not modelled.
\<close>

text \<open>
  Modelled from the spec: the engine's document, a sequence of characters, each of one
  byte or more and every byte with a style, with the code page, the cursor, the
  selection, the answer to \<open>SCI_POSITIONFROMPOINT\<close> and the place of the viewport on
  the screen. A character is its first byte and the bytes that follow it.
\<close>

type_synonym cell = "byte \<times> int"
type_synonym character = "cell \<times> cell list"

record document =
  chars :: "character list"
  code_page :: int
  current_pos :: int
  selection_start :: int
  selection_end :: int
  position_from_point :: "int \<Rightarrow> int \<Rightarrow> int"
  viewport_origin :: QPoint

definition cells :: "character \<Rightarrow> cell list" where
  "cells c = fst c # snd c"

definition width :: "character \<Rightarrow> int" where
  "width c = 1 + int (length (snd c))"

definition buffer :: "document \<Rightarrow> cell list" where
  "buffer d = concat (map cells (chars d))"

text \<open>The bytes of the characters from \<open>s\<close> up to but not including \<open>e\<close>.\<close>

definition character_bytes :: "document \<Rightarrow> nat \<Rightarrow> nat \<Rightarrow> byte list" where
  "character_bytes d s e = map fst (concat (map cells (take (e - s) (drop s (chars d)))))"

text \<open>Modelled from the spec: the text length (\<open>SCI_GETTEXTLENGTH\<close>), in bytes.\<close>

definition Length :: "document \<Rightarrow> int" where
  "Length d = int (length (buffer d))"

text \<open>The byte position where character \<open>k\<close> of \<open>cs\<close> starts.\<close>

definition position_of :: "character list \<Rightarrow> nat \<Rightarrow> int" where
  "position_of cs k = sum_list (map width (take k cs))"

text \<open>
  The first character boundary after \<open>pos\<close>, in the characters \<open>cs\<close> that start at
  byte \<open>p\<close>; the end of the document when there is none.
\<close>

fun next_boundary :: "character list \<Rightarrow> int \<Rightarrow> int \<Rightarrow> int" where
  "next_boundary [] p pos = p"
| "next_boundary (c # cs) p pos =
     (if pos < p then p else next_boundary cs (p + width c) pos)"

text \<open>The last character boundary before \<open>pos\<close>; \<open>best\<close> when there is none.\<close>

fun prev_boundary :: "character list \<Rightarrow> int \<Rightarrow> int \<Rightarrow> int \<Rightarrow> int" where
  "prev_boundary [] p best pos = (if p < pos then p else best)"
| "prev_boundary (c # cs) p best pos =
     (if p < pos then prev_boundary cs (p + width c) p pos else best)"

text \<open>
  Modelled from the spec: the answer to \<open>SCI_POSITIONAFTER\<close>, the position after the
  character at \<open>pos\<close>: the next character boundary, and the end of the document from
  its last character on.
\<close>

definition NextPosition :: "document \<Rightarrow> int \<Rightarrow> int" where
  "NextPosition d pos = next_boundary (chars d) 0 pos"

text \<open>
  Modelled from the spec: the answer to \<open>SCI_POSITIONBEFORE\<close>, the position before
  the character that ends at \<open>pos\<close>: the previous character boundary, and 0 up to the
  first character.
\<close>

definition PrevPosition :: "document \<Rightarrow> int \<Rightarrow> int" where
  "PrevPosition d pos = prev_boundary (chars d) 0 0 pos"

text \<open>\<open>n\<close> steps from \<open>pos\<close>; \<open>- 1\<close> (no position) when a step does not move.\<close>

fun relative_walk :: "(int \<Rightarrow> int) \<Rightarrow> nat \<Rightarrow> int \<Rightarrow> int" where
  "relative_walk step 0 pos = pos"
| "relative_walk step (Suc n) pos =
     (let posNext = step pos
      in if posNext = pos then - 1 else relative_walk step n posNext)"

text \<open>
  Modelled from the spec: the position \<open>characterOffset\<close> whole characters after
  \<open>positionStart\<close> (before it, for a negative number), or \<open>- 1\<close> when the document
  ends first. \<open>SCI_POSITIONRELATIVE\<close> answers this position, and 0 in place of
  \<open>- 1\<close>.
\<close>

definition GetRelativePosition :: "document \<Rightarrow> int \<Rightarrow> int \<Rightarrow> int" where
  "GetRelativePosition d positionStart characterOffset =
     (if characterOffset > 0
      then relative_walk (NextPosition d) (nat characterOffset) positionStart
      else relative_walk (PrevPosition d) (nat (- characterOffset)) positionStart)"

text \<open>
  Modelled from the spec: the answer to \<open>SCI_GETSTYLEAT\<close>, the style of the byte at
  \<open>pos\<close>, and 0 outside the document.
\<close>

definition StyleAt :: "document \<Rightarrow> int \<Rightarrow> int" where
  "StyleAt d pos =
     (if 0 \<le> pos \<and> pos < Length d then snd (buffer d ! nat pos) else 0)"

text \<open>
  Modelled from the spec: the bytes \<open>SCI_GETTEXTRANGE\<close> stores, those from \<open>cpMin\<close>
  up to but not including \<open>cpMax\<close>; a \<open>cpMax\<close> of \<open>- 1\<close> is the end of the
  document.
\<close>

definition GetTextRange :: "document \<Rightarrow> int \<Rightarrow> int \<Rightarrow> byte list" where
  "GetTextRange d cpMin cpMax =
     (let cpEnd = (if cpMax = - 1 then Length d else cpMax)
      in map fst (take (nat (cpEnd - cpMin)) (drop (nat cpMin) (buffer d))))"

text \<open>
  Modelled from the spec: the widget of a document, that is what \<open>SendScintilla\<close>
  answers to each message, and \<open>viewport()->mapFromGlobal\<close>.
\<close>

definition sci :: "document \<Rightarrow> QsciScintillaBase" where
  "sci d =
     \<lparr>SendScintilla = (\<lambda>msg wParam lParam.
        case msg of
          SCI_GETCODEPAGE \<Rightarrow> code_page d
        | SCI_POSITIONRELATIVE \<Rightarrow>
            max 0 (min (Length d) (GetRelativePosition d wParam lParam))
        | SCI_POSITIONAFTER \<Rightarrow> NextPosition d wParam
        | SCI_POSITIONBEFORE \<Rightarrow> PrevPosition d wParam
        | SCI_GETSTYLEAT \<Rightarrow> StyleAt d wParam
        | SCI_GETTEXTLENGTH \<Rightarrow> Length d
        | SCI_GETCURRENTPOS \<Rightarrow> current_pos d
        | SCI_GETSELECTIONSTART \<Rightarrow> selection_start d
        | SCI_GETSELECTIONEND \<Rightarrow> selection_end d
        | SCI_GETTEXTRANGE \<Rightarrow> 0
        | SCI_POSITIONFROMPOINT \<Rightarrow> position_from_point d wParam lParam),
      SendScintilla_buf = (\<lambda>msg cpMin cpMax.
        case msg of SCI_GETTEXTRANGE \<Rightarrow> GetTextRange d cpMin cpMax | _ \<Rightarrow> []),
      mapFromGlobal = (\<lambda>point.
        (fst point - fst (viewport_origin d), snd point - snd (viewport_origin d)))\<rparr>"

text \<open>
  Two documents to run the adapter on. \<open>cafe\<close> is a UTF-8 document of five
  characters, \<open>c a f\<close>, an e with an acute accent (the two bytes C3 A9) and \<open>!\<close>;
  the first three have style 1, the last two style 2. \<open>abc\<close> is three one-byte
  characters in a Latin-1 document.
\<close>

definition cafe :: document where
  "cafe = \<lparr>chars = [((0x63, 1), []), ((0x61, 1), []), ((0x66, 1), []),
                    ((0xC3, 2), [(0xA9, 2)]), ((0x21, 2), [])],
           code_page = 65001, current_pos = 3, selection_start = 1, selection_end = 3,
           position_from_point = (\<lambda>x y. if 0 \<le> x \<and> x < 50 \<and> 0 \<le> y \<and> y < 16 then x div 10 else - 1),
           viewport_origin = (100, 200)\<rparr>"

definition abc :: document where
  "abc = \<lparr>chars = [((0x61, 5), []), ((0x62, 5), []), ((0x63, 7), [])],
          code_page = 0, current_pos = 2, selection_start = 0, selection_end = 2,
          position_from_point = (\<lambda>x y. if 0 \<le> x \<and> x < 30 \<and> 0 \<le> y \<and> y < 16 then x div 10 else - 1),
          viewport_origin = (0, 0)\<rparr>"

text \<open>
  \<open>cafe\<close> with the selection from byte 1 to byte 5 (the characters \<open>a\<close>, \<open>f\<close> and the
  accented e) and with the last character, at byte 5, under every point.
\<close>

definition cafe_end :: document where
  "cafe_end = cafe\<lparr>selection_end := 5, position_from_point := (\<lambda>x y. 5)\<rparr>"

subsection \<open>Qt's string conversions\<close>

text \<open>
  Modelled from the spec: \<open>QString::fromUtf8\<close>, \<open>toUtf8\<close>, \<open>fromLatin1\<close> and
  \<open>toLatin1\<close> are Qt's and not among the sources. They are modelled as the two
  encodings are defined, over a \<open>QString\<close> of UTF-16 code units. Latin-1 is one byte
  for each code unit up to FF; UTF-8 is one to four bytes for each code point, a code
  point above FFFF being a pair of surrogate code units. What cannot be converted is
  replaced: by \<open>?\<close> towards bytes, by U+FFFD, one for each byte, towards text. What Qt
  does with a byte order mark at the start of the bytes is not modelled.
\<close>

definition is_high :: "nat \<Rightarrow> bool" where
  "is_high u \<longleftrightarrow> 0xD800 \<le> u \<and> u < 0xDC00"

definition is_low :: "nat \<Rightarrow> bool" where
  "is_low u \<longleftrightarrow> 0xDC00 \<le> u \<and> u < 0xE000"

definition is_continuation :: "nat \<Rightarrow> bool" where
  "is_continuation b \<longleftrightarrow> 0x80 \<le> b \<and> b < 0xC0"

text \<open>Modelled from the spec: the UTF-8 bytes of a code point.\<close>

definition utf8_of :: "nat \<Rightarrow> nat list" where
  "utf8_of c =
     (if c < 0x80 then [c]
      else if c < 0x800 then [0xC0 + c div 64, 0x80 + c mod 64]
      else if c < 0x10000 then [0xE0 + c div 4096, 0x80 + c div 64 mod 64, 0x80 + c mod 64]
      else [0xF0 + c div 262144, 0x80 + c div 4096 mod 64, 0x80 + c div 64 mod 64,
            0x80 + c mod 64])"

text \<open>Modelled from the spec: the UTF-16 code units of a code point.\<close>

definition utf16_of :: "nat \<Rightarrow> nat list" where
  "utf16_of c =
     (if c < 0x10000 then [c]
      else [0xD800 + (c - 0x10000) div 1024, 0xDC00 + (c - 0x10000) mod 1024])"

text \<open>
  Modelled from the spec: UTF-16 code units to UTF-8 bytes; a surrogate without its
  partner becomes \<open>?\<close>.
\<close>

fun utf16_to_utf8 :: "nat list \<Rightarrow> nat list" where
  "utf16_to_utf8 [] = []"
| "utf16_to_utf8 [u] = (if is_high u \<or> is_low u then [0x3F] else utf8_of u)"
| "utf16_to_utf8 (u # v # rest) =
     (if is_high u \<and> is_low v
      then utf8_of (0x10000 + (u - 0xD800) * 1024 + (v - 0xDC00)) @ utf16_to_utf8 rest
      else if is_high u \<or> is_low u then 0x3F # utf16_to_utf8 (v # rest)
      else utf8_of u @ utf16_to_utf8 (v # rest))"

text \<open>
  The code point the bytes start with and the number of bytes after the first that
  belong to it; \<open>None\<close> when they start with no well-formed UTF-8 sequence.
\<close>

fun utf8_first :: "nat list \<Rightarrow> (nat \<times> nat) option" where
  "utf8_first [] = None"
| "utf8_first (b0 # bs) =
     (if b0 < 0x80 then Some (b0, 0)
      else if 0xC2 \<le> b0 \<and> b0 < 0xE0 then
        (case bs of
           b1 # _ \<Rightarrow>
             if is_continuation b1 then Some ((b0 - 0xC0) * 64 + (b1 - 0x80), 1) else None
         | _ \<Rightarrow> None)
      else if 0xE0 \<le> b0 \<and> b0 < 0xF0 then
        (case bs of
           b1 # b2 # _ \<Rightarrow>
             (let c = (b0 - 0xE0) * 4096 + (b1 - 0x80) * 64 + (b2 - 0x80)
              in if is_continuation b1 \<and> is_continuation b2 \<and> 0x800 \<le> c \<and>
                    \<not> is_high c \<and> \<not> is_low c
                 then Some (c, 2) else None)
         | _ \<Rightarrow> None)
      else if 0xF0 \<le> b0 \<and> b0 < 0xF5 then
        (case bs of
           b1 # b2 # b3 # _ \<Rightarrow>
             (let c = (b0 - 0xF0) * 262144 + (b1 - 0x80) * 4096 + (b2 - 0x80) * 64 + (b3 - 0x80)
              in if is_continuation b1 \<and> is_continuation b2 \<and> is_continuation b3 \<and>
                    0x10000 \<le> c \<and> c < 0x110000
                 then Some (c, 3) else None)
         | _ \<Rightarrow> None)
      else None)"

text \<open>
  Modelled from the spec: UTF-8 bytes to UTF-16 code units; a byte that starts no
  well-formed sequence becomes U+FFFD.
\<close>

function utf8_to_utf16 :: "nat list \<Rightarrow> nat list" where
  "utf8_to_utf16 [] = []"
| "utf8_to_utf16 (b0 # bs) =
     (case utf8_first (b0 # bs) of
        Some (c, k) \<Rightarrow> utf16_of c @ utf8_to_utf16 (drop k bs)
      | None \<Rightarrow> 0xFFFD # utf8_to_utf16 bs)"
  by pat_completeness auto
termination
  by (relation "measure length") auto

text \<open>Code units in which every surrogate has its partner.\<close>

fun well_formed :: "nat list \<Rightarrow> bool" where
  "well_formed [] \<longleftrightarrow> True"
| "well_formed [u] \<longleftrightarrow> \<not> is_high u \<and> \<not> is_low u"
| "well_formed (u # v # rest) \<longleftrightarrow>
     (if is_high u then is_low v \<and> well_formed rest
      else \<not> is_low u \<and> well_formed (v # rest))"

text \<open>Modelled from the spec: the four conversions of \<open>QString\<close>.\<close>

definition QString_fromUtf8 :: "byte list \<Rightarrow> QString" where
  "QString_fromUtf8 bytes = map of_nat (utf8_to_utf16 (map unat bytes))"

definition QString_toUtf8 :: "QString \<Rightarrow> QByteArray" where
  "QString_toUtf8 text = map of_nat (utf16_to_utf8 (map unat text))"

definition QString_fromLatin1 :: "byte list \<Rightarrow> QString" where
  "QString_fromLatin1 bytes = map ucast bytes"

definition QString_toLatin1 :: "QString \<Rightarrow> QByteArray" where
  "QString_toLatin1 text = map (\<lambda>c. if c > 0xFF then 0x3F else ucast c) text"

definition Qt :: Qt_codecs where
  "Qt = \<lparr>fromUtf8 = QString_fromUtf8, toUtf8 = QString_toUtf8,
          fromLatin1 = QString_fromLatin1, toLatin1 = QString_toLatin1\<rparr>"

text \<open>
  The texts an encoding can represent: in UTF-8 those in which every surrogate has its
  partner, in Latin-1 those of code units up to FF. \<open>representable sb\<close> is that of the
  encoding \<open>bytesAsText\<close> and \<open>textAsBytes\<close> are to use for the widget \<open>sb\<close>.
\<close>

definition utf8_representable :: "QString \<Rightarrow> bool" where
  "utf8_representable str \<longleftrightarrow> well_formed (map unat str)"

definition latin1_representable :: "QString \<Rightarrow> bool" where
  "latin1_representable str \<longleftrightarrow> (\<forall>c\<in>set str. c \<le> 0xFF)"

definition representable :: "QsciScintillaBase \<Rightarrow> QString \<Rightarrow> bool" where
  "representable sb str \<longleftrightarrow>
     (if SendScintilla sb SCI_GETCODEPAGE 0 0 = SC_CP_UTF8 then utf8_representable str
      else latin1_representable str)"

section \<open>Properties\<close>

subsection \<open>What the document engine answers\<close>

lemma sci_simps:
  "SendScintilla (sci d) SCI_GETCODEPAGE w l = code_page d"
  "SendScintilla (sci d) SCI_POSITIONRELATIVE w l =
     max 0 (min (Length d) (GetRelativePosition d w l))"
  "SendScintilla (sci d) SCI_POSITIONAFTER w l = NextPosition d w"
  "SendScintilla (sci d) SCI_POSITIONBEFORE w l = PrevPosition d w"
  "SendScintilla (sci d) SCI_GETSTYLEAT w l = StyleAt d w"
  "SendScintilla (sci d) SCI_GETTEXTLENGTH w l = Length d"
  "SendScintilla (sci d) SCI_GETCURRENTPOS w l = current_pos d"
  "SendScintilla (sci d) SCI_GETSELECTIONSTART w l = selection_start d"
  "SendScintilla (sci d) SCI_GETSELECTIONEND w l = selection_end d"
  "SendScintilla (sci d) SCI_POSITIONFROMPOINT w l = position_from_point d w l"
  "SendScintilla_buf (sci d) SCI_GETTEXTRANGE w l = GetTextRange d w l"
  "mapFromGlobal (sci d) point =
     (fst point - fst (viewport_origin d), snd point - snd (viewport_origin d))"
  by (simp_all add: sci_def)

subsection \<open>The two documents, evaluated\<close>

lemma cafe_fields:
  "code_page cafe = 65001" "current_pos cafe = 3" "selection_start cafe = 1"
  "selection_end cafe = 3" "viewport_origin cafe = (100, 200)"
  "position_from_point cafe x y = (if 0 \<le> x \<and> x < 50 \<and> 0 \<le> y \<and> y < 16 then x div 10 else - 1)"
  by (simp_all add: cafe_def)

lemma abc_fields:
  "code_page abc = 0" "current_pos abc = 2" "selection_start abc = 0"
  "selection_end abc = 2" "viewport_origin abc = (0, 0)"
  "position_from_point abc x y = (if 0 \<le> x \<and> x < 30 \<and> 0 \<le> y \<and> y < 16 then x div 10 else - 1)"
  by (simp_all add: abc_def)

lemma cafe_Length: "Length cafe = 6"
  by (simp add: cafe_def Length_def buffer_def cells_def)

lemma cafe_NextPosition:
  "NextPosition cafe 0 = 1" "NextPosition cafe 1 = 2" "NextPosition cafe 2 = 3"
  "NextPosition cafe 3 = 5" "NextPosition cafe 5 = 6" "NextPosition cafe 6 = 6"
  by (simp_all add: cafe_def NextPosition_def width_def)

lemma cafe_positionAsTextPosition:
  "positionAsTextPosition (sci cafe) 0 = 0"
  "positionAsTextPosition (sci cafe) 1 = 1"
  "positionAsTextPosition (sci cafe) 2 = 2"
  "positionAsTextPosition (sci cafe) 3 = 3"
  "positionAsTextPosition (sci cafe) 4 = 5"
  "positionAsTextPosition (sci cafe) 5 = 6"
  "positionAsTextPosition (sci cafe) 6 = 0"
  by (simp_all add: positionAsTextPosition_def sci_simps GetRelativePosition_def
      cafe_Length cafe_NextPosition numeral_eq_Suc)

subsection \<open>Finding the adapter of a widget\<close>

lemma findAccessible_loop_None:
  "findAccessible_loop accs i sb = None \<longleftrightarrow> (\<forall>acc\<in>set accs. sciWidget acc \<noteq> sb)"
  by (induction accs arbitrary: i) auto

lemma findAccessible_loop_Some:
  "findAccessible_loop accs i sb = Some k \<Longrightarrow>
     i \<le> k \<and> k - i < length accs \<and> sciWidget (accs ! (k - i)) = sb"
proof (induction accs arbitrary: i)
  case Nil
  then show ?case by simp
next
  case (Cons a accs)
  show ?case
  proof (cases "sciWidget a = sb")
    case True
    with Cons.prems show ?thesis by simp
  next
    case False
    with Cons.prems have "findAccessible_loop accs (Suc i) sb = Some k" by simp
    from Cons.IH [OF this] show ?thesis
      by (auto simp: Suc_diff_Suc Suc_le_eq less_imp_le)
  qed
qed

text \<open>
  C10. Notifications for a widget that has no adapter do nothing: when no object of
  \<open>all_accessibles\<close> belongs to \<open>sb\<close>, \<open>findAccessible\<close> returns null and both
  \<open>selectionChanged\<close> and \<open>updated\<close> leave the whole state as it is, the list of
  events given to Qt included.
\<close>

theorem unregistered_widget_noop:
  "(\<forall>acc\<in>set (all_accessibles st). sciWidget acc \<noteq> sb) \<Longrightarrow>
     findAccessible st sb = None \<and>
     selectionChanged st sb sel = st \<and>
     updated widgets st sb = st"
proof -
  assume "\<forall>acc\<in>set (all_accessibles st). sciWidget acc \<noteq> sb"
  then have "findAccessible st sb = None"
    by (simp add: findAccessible_def findAccessible_loop_None)
  then show ?thesis
    by (simp add: selectionChanged_def updated_def)
qed

theorem unregistered_widget_noop_witness:
  "map sciWidget (all_accessibles (ctor initial 7)) = [7] \<and>
   findAccessible (ctor initial 7) 8 = None \<and>
   selectionChanged (ctor initial 7) 8 True = ctor initial 7 \<and>
   updated (\<lambda>w. sci cafe) (ctor initial 7) 8 = ctor initial 7"
proof -
  have h: "\<forall>acc\<in>set (all_accessibles (ctor initial 7)). sciWidget acc \<noteq> 8"
    by (simp add: ctor_def initial_def sciWidget_def)
  have "map sciWidget (all_accessibles (ctor initial 7)) = [7]"
    by (simp add: ctor_def initial_def sciWidget_def)
  with unregistered_widget_noop [OF h, of True "\<lambda>w. sci cafe"] show ?thesis by simp
qed

subsection \<open>Installing the factory\<close>

lemma initialise_invariant:
  "reachable st \<Longrightarrow> installFactory st = (if needs_initialising st then [] else [factory])"
  by (induction rule: reachable.induct)
    (auto simp: initial_def initialise_def ctor_def dtor_def selectionChanged_def
       textInserted_def textDeleted_def updated_def Let_def split: option.splits)

lemma initialise_again: "(initialise ^^ n) (initialise st) = initialise st"
  by (induction n) (auto simp: initialise_def)

text \<open>
  C9. \<open>initialise\<close> is idempotent. A call with \<open>needs_initialising\<close> set installs the
  factory and clears the flag; a call with the flag clear changes nothing, so any
  number of further calls leaves the state of the first. In every reachable state the
  factory has been installed at most once: not at all while the flag is set, once
  after.
\<close>

theorem initialise_idempotent:
  "initialise st =
     (if needs_initialising st
      then st\<lparr>installFactory := installFactory st @ [factory], needs_initialising := False\<rparr>
      else st) \<and>
   \<not> needs_initialising (initialise st) \<and>
   initialise (initialise st) = initialise st \<and>
   (initialise ^^ n) (initialise st) = initialise st \<and>
   (reachable st \<longrightarrow> length (installFactory st) \<le> 1 \<and>
      installFactory st = (if needs_initialising st then [] else [factory]))"
  using initialise_again [of n st] initialise_again [of 1 st] initialise_invariant [of st]
  by (auto simp: initialise_def)

theorem initialise_idempotent_witness:
  "reachable (initialise (ctor (initialise initial) 7)) \<and>
   installFactory (initialise (ctor (initialise initial) 7)) = [factory] \<and>
   installFactory (initialise initial) = [factory] \<and>
   installFactory initial = []"
  using initialise_idempotent [of "initialise (ctor (initialise initial) 7)" 0]
    reachable_initialise [OF reachable_ctor [OF reachable_initialise [OF reachable_initial]], of 7]
  by (simp add: initialise_def ctor_def initial_def)

subsection \<open>Text positions before the document\<close>

text \<open>
  C8. A text position that is zero or negative is byte position 0: the loop of
  \<open>textPositionAsPosition\<close> does not run, whatever the engine.
\<close>

theorem textPositionAsPosition_nonpositive:
  "textPosition \<le> 0 \<Longrightarrow> textPositionAsPosition sb textPosition = 0"
  by (simp add: textPositionAsPosition_def textPositionAsPosition_loop.simps)

theorem textPositionAsPosition_nonpositive_witness:
  "(- 3 :: int) \<le> 0 \<and> textPositionAsPosition (sci cafe) (- 3) = 0"
  using textPositionAsPosition_nonpositive [of "- 3" "sci cafe"] by simp

subsection \<open>The cursor position\<close>

text \<open>
  A new adapter object does not return the engine's cursor position: the object made
  for widget 7 returns \<open>- 1\<close>, while the cursor of the document \<open>cafe\<close> is at text
  position 3.
\<close>

theorem cursorPosition_sentinel_counterexample:
  "cursorPosition (all_accessibles (ctor initial 7) ! 0) \<noteq>
     positionAsTextPosition (sci cafe) (SendScintilla (sci cafe) SCI_GETCURRENTPOS 0 0)"
  by (simp add: cursorPosition_def ctor_def initial_def sci_simps cafe_fields
      cafe_positionAsTextPosition)

lemma findAccessible_loop_shift:
  "findAccessible_loop accs i sb = map_option ((+) i) (findAccessible_loop accs 0 sb)"
proof (induction accs arbitrary: i)
  case Nil
  then show ?case by simp
next
  case (Cons a accs)
  from Cons [of "Suc i"] Cons [of "Suc 0"] show ?case
    by (simp add: option.map_comp comp_def)
qed

lemma updated_accessibles:
  "all_accessibles (updated widgets st sb) =
     (case findAccessible st sb of
        None \<Rightarrow> all_accessibles st
      | Some k \<Rightarrow> (all_accessibles st)
          [k := (all_accessibles st ! k)\<lparr>current_cursor_position :=
             SendScintilla (widgets sb) SCI_POSITIONRELATIVE 0
               (SendScintilla (widgets sb) SCI_GETCURRENTPOS 0 0)\<rparr>])"
proof (cases "findAccessible st sb")
  case None
  then show ?thesis by (simp add: updated_def)
next
  case (Some k)
  define v where "v = SendScintilla (widgets sb) SCI_POSITIONRELATIVE 0
    (SendScintilla (widgets sb) SCI_GETCURRENTPOS 0 0)"
  show ?thesis
  proof (cases "current_cursor_position (all_accessibles st ! k) = v")
    case True
    then have "(all_accessibles st ! k)\<lparr>current_cursor_position := v\<rparr> = all_accessibles st ! k"
      by simp
    then have "(all_accessibles st)[k := (all_accessibles st ! k)\<lparr>current_cursor_position := v\<rparr>] =
        all_accessibles st"
      by (simp only: list_update_id)
    with Some True show ?thesis
      by (simp add: updated_def Let_def positionAsTextPosition_def v_def [symmetric])
  next
    case False
    with Some show ?thesis
      by (simp add: updated_def Let_def positionAsTextPosition_def v_def [symmetric])
  qed
qed

lemma shown_cursor: "shown (a\<lparr>current_cursor_position := v\<rparr>) = (sciWidget a, v)"
  by (simp add: shown_def sciWidget_def cursorPosition_def)

lemma shown_selection: "shown (a\<lparr>is_selection := b\<rparr>) = shown a"
  by (simp add: shown_def sciWidget_def cursorPosition_def)

lemma held_simps: "held (w, None) = (w, - 1)" "held (w, Some v) = (w, v)"
  by (simp_all add: held_def)

lemma shown_held_widget: "shown a = held (w, seen) \<Longrightarrow> sciWidget a = w"
  by (simp add: shown_def held_def)

lemma shown_updated:
  "map shown accs = map held hist \<Longrightarrow>
     map shown
       (case findAccessible_loop accs 0 sb of
          None \<Rightarrow> accs
        | Some k \<Rightarrow> accs[k := (accs ! k)\<lparr>current_cursor_position := v\<rparr>]) =
     map held (log_updated sb v hist)"
proof (induction accs arbitrary: hist)
  case Nil
  then show ?case by simp
next
  case (Cons a accs)
  from Cons.prems obtain w seen rest where hist: "hist = (w, seen) # rest"
    and a: "shown a = held (w, seen)" and rest: "map shown accs = map held rest"
    by (cases hist) auto
  note w = shown_held_widget [OF a]
  show ?case
  proof (cases "w = sb")
    case True
    with w rest show ?thesis
      by (simp add: hist shown_cursor held_simps)
  next
    case False
    from Cons.IH [OF rest] have "map shown
        (case findAccessible_loop accs 0 sb of
           None \<Rightarrow> accs
         | Some k \<Rightarrow> accs[k := (accs ! k)\<lparr>current_cursor_position := v\<rparr>]) =
        map held (log_updated sb v rest)" .
    with False w a findAccessible_loop_shift [of accs "Suc 0" sb] show ?thesis
      by (cases "findAccessible_loop accs 0 sb") (simp_all add: hist)
  qed
qed

lemma history_shown:
  "history st hist \<Longrightarrow> map shown (all_accessibles st) = map held hist"
proof (induction rule: history.induct)
  case history_initial
  then show ?case by (simp add: initial_def)
next
  case (history_initialise st hist)
  then show ?case by (simp add: initialise_def)
next
  case (history_ctor st hist w)
  then show ?case
    by (simp add: ctor_def shown_def held_def sciWidget_def cursorPosition_def)
next
  case (history_dtor st hist place)
  then show ?case
    by (simp add: dtor_def take_map [symmetric] drop_map [symmetric])
next
  case (history_selectionChanged st hist sb sel)
  have "map shown (xs[k := (xs ! k)\<lparr>is_selection := sel\<rparr>]) = map shown xs"
    for xs k
    by (simp add: map_update shown_selection) (metis list_update_id map_update)
  with history_selectionChanged show ?case
    by (cases "findAccessible st sb") (simp_all add: selectionChanged_def)
next
  case (history_textInserted st hist qt widgets sb position bytes st')
  then show ?case
    by (auto simp: textInserted_def Let_def split: option.splits)
next
  case (history_textDeleted st hist qt widgets sb position bytes st')
  then show ?case
    by (auto simp: textDeleted_def Let_def split: option.splits)
next
  case (history_updated st hist widgets sb)
  from shown_updated [OF history_updated.IH] show ?case
    by (simp add: updated_accessibles findAccessible_def)
qed

lemma reachable_history: "reachable st \<Longrightarrow> \<exists>hist. history st hist"
proof (induction rule: reachable.induct)
  case reachable_initial
  show ?case by (blast intro: history.intros)
next
  case (reachable_dtor st place)
  then show ?case by (blast intro: history.intros)
qed (blast intro: history.intros)+

text \<open>
  C4, as the code has it. \<open>cursorPosition\<close> returns the field
  \<open>current_cursor_position\<close>, and the field is a cache. Every reachable state has a
  record (\<open>history\<close>), and in every state the adapter objects show what the record
  holds: an object that no \<open>updated\<close> has found since it was made returns \<open>- 1\<close>; any
  other returns what the last \<open>updated(sb)\<close> that found it got from the engine for
  the cursor position of that moment. No other operation changes what an object
  returns: not \<open>initialise\<close>, not the making or destroying of another object, not
  \<open>selectionChanged\<close>, \<open>textInserted\<close> or \<open>textDeleted\<close>, not \<open>updated\<close> for
  another widget or for a widget whose first object is another one.
\<close>

theorem cursorPosition_cached:
  "(reachable st \<longrightarrow> (\<exists>hist. history st hist)) \<and>
   (history st hist \<longrightarrow> map shown (all_accessibles st) = map held hist)"
  using reachable_history [of st] history_shown [of st hist] by blast

theorem cursorPosition_cached_witness:
  "history (updated (\<lambda>w. sci cafe) (ctor (ctor initial 7) 8) 8) [(7, None), (8, Some 3)] \<and>
   map cursorPosition (all_accessibles (updated (\<lambda>w. sci cafe) (ctor (ctor initial 7) 8) 8)) =
     [- 1, 3]"
proof -
  have v: "SendScintilla (sci cafe) SCI_POSITIONRELATIVE 0
      (SendScintilla (sci cafe) SCI_GETCURRENTPOS 0 0) = 3"
    using cafe_positionAsTextPosition(4)
    by (simp add: positionAsTextPosition_def sci_simps(7) cafe_fields)
  from history_updated [OF history_ctor [OF history_ctor [OF history_initial, of 7], of 8],
      of "\<lambda>w. sci cafe" 8]
  have h: "history (updated (\<lambda>w. sci cafe) (ctor (ctor initial 7) 8) 8)
      [(7, None), (8, Some 3)]"
    by (simp add: v)
  from cursorPosition_cached [of "updated (\<lambda>w. sci cafe) (ctor (ctor initial 7) 8) 8"
      "[(7, None), (8, Some 3)]"] h
  have "map shown (all_accessibles (updated (\<lambda>w. sci cafe) (ctor (ctor initial 7) 8) 8)) =
      [(7, - 1), (8, 3)]"
    by (simp add: held_simps)
  then have "map snd (map shown (all_accessibles (updated (\<lambda>w. sci cafe)
      (ctor (ctor initial 7) 8) 8))) = [- 1, 3]"
    by (simp only: list.map snd_conv)
  with h show ?thesis
    by (simp add: shown_def comp_def)
qed

subsection \<open>Walking the characters\<close>

lemma textPositionAsPosition_loop_step:
  "p \<le> textPosition \<Longrightarrow>
     textPositionAsPosition_loop sb (textPosition + 1) p position =
       SendScintilla sb SCI_POSITIONAFTER
         (textPositionAsPosition_loop sb textPosition p position) 0"
proof (induction sb textPosition p position rule: textPositionAsPosition_loop.induct)
  case (1 sb textPosition p position)
  show ?case
  proof (cases "p < textPosition")
    case True
    with "1.IH" have "textPositionAsPosition_loop sb (textPosition + 1) (p + 1)
          (SendScintilla sb SCI_POSITIONAFTER position 0) =
        SendScintilla sb SCI_POSITIONAFTER
          (textPositionAsPosition_loop sb textPosition (p + 1)
             (SendScintilla sb SCI_POSITIONAFTER position 0)) 0"
      by simp
    with True show ?thesis
      by (simp add: textPositionAsPosition_loop.simps [of sb "textPosition + 1" p]
          textPositionAsPosition_loop.simps [of sb textPosition p])
  next
    case False
    with "1.prems" have "p = textPosition" by simp
    then show ?thesis
      by (simp add: textPositionAsPosition_loop.simps)
  qed
qed

lemma textPositionAsPosition_0: "textPositionAsPosition sb 0 = 0"
  by (simp add: textPositionAsPosition_def textPositionAsPosition_loop.simps)

lemma textPositionAsPosition_step:
  "0 \<le> t \<Longrightarrow> textPositionAsPosition sb (t + 1) =
     SendScintilla sb SCI_POSITIONAFTER (textPositionAsPosition sb t) 0"
  by (simp add: textPositionAsPosition_def textPositionAsPosition_loop_step)

lemma characters_next:
  "characters sb n \<Longrightarrow> 0 \<le> t \<Longrightarrow> t < n \<Longrightarrow>
     textPositionAsPosition sb t < textPositionAsPosition sb (t + 1)"
  by (simp add: characters_def)

lemma characters_before:
  assumes "characters sb n" "0 < t" "t \<le> n"
  shows "SendScintilla sb SCI_POSITIONBEFORE (textPositionAsPosition sb t) 0 =
     textPositionAsPosition sb (t - 1)"
proof -
  from assms have "t - 1 \<in> {0..<n}" by simp
  with assms(1) have "SendScintilla sb SCI_POSITIONBEFORE
      (textPositionAsPosition sb (t - 1 + 1)) 0 = textPositionAsPosition sb (t - 1)"
    unfolding characters_def by blast
  then show ?thesis by simp
qed

lemma characters_end:
  "characters sb n \<Longrightarrow> textPositionAsPosition sb n = SendScintilla sb SCI_GETTEXTLENGTH 0 0"
  by (simp add: characters_def)

lemma characters_mono_aux:
  assumes "characters sb n"
  shows "a + int k \<le> n \<Longrightarrow> 0 \<le> a \<Longrightarrow>
     textPositionAsPosition sb a + int k \<le> textPositionAsPosition sb (a + int k)"
proof (induction k)
  case 0
  then show ?case by simp
next
  case (Suc k)
  have eq: "a + int (Suc k) = a + int k + 1" by simp
  from Suc.prems have "0 \<le> a + int k" "a + int k < n" by simp_all
  from characters_next [OF assms this]
  have "textPositionAsPosition sb (a + int k) < textPositionAsPosition sb (a + int k + 1)" .
  moreover from Suc have "textPositionAsPosition sb a + int k \<le>
      textPositionAsPosition sb (a + int k)" by simp
  ultimately show ?case unfolding eq by linarith
qed

lemma characters_mono:
  assumes "characters sb n" "0 \<le> a" "a \<le> b" "b \<le> n"
  shows "textPositionAsPosition sb a + (b - a) \<le> textPositionAsPosition sb b"
  using characters_mono_aux [OF assms(1), of a "nat (b - a)"] assms by simp

subsection \<open>The document engine walks its characters\<close>

lemma width_positive: "0 < width c"
  by (simp add: width_def)

lemma position_of_0: "position_of cs 0 = 0"
  by (simp add: position_of_def)

lemma position_of_Cons_Suc: "position_of (c # cs) (Suc k) = width c + position_of cs k"
  by (simp add: position_of_def)

lemma position_of_Suc:
  "k < length cs \<Longrightarrow> position_of cs (Suc k) = position_of cs k + width (cs ! k)"
  by (simp add: position_of_def take_Suc_conv_app_nth)

lemma position_of_nonneg: "0 \<le> position_of cs k"
proof (induction cs arbitrary: k)
  case Nil
  then show ?case by (simp add: position_of_def)
next
  case (Cons c cs)
  show ?case
  proof (cases k)
    case 0
    then show ?thesis by (simp add: position_of_0)
  next
    case (Suc j)
    with Cons [of j] width_positive [of c] show ?thesis
      by (simp add: position_of_Cons_Suc)
  qed
qed

lemma next_boundary_at:
  "k < length cs \<Longrightarrow> next_boundary cs p (p + position_of cs k) = p + position_of cs (Suc k)"
proof (induction cs arbitrary: p k)
  case Nil
  then show ?case by simp
next
  case (Cons c cs)
  show ?case
  proof (cases k)
    case 0
    have "next_boundary cs (p + width c) p = p + width c"
      using width_positive [of c] by (cases cs) simp_all
    with 0 show ?thesis
      by (simp add: position_of_0 position_of_Cons_Suc)
  next
    case (Suc j)
    with Cons.prems have "j < length cs" by simp
    from Cons.IH [OF this, of "p + width c"] Suc position_of_nonneg [of cs j]
      width_positive [of c]
    show ?thesis
      by (simp add: position_of_Cons_Suc add.assoc)
  qed
qed

lemma next_boundary_end:
  "p + position_of cs (length cs) \<le> pos \<Longrightarrow>
     next_boundary cs p pos = p + position_of cs (length cs)"
proof (induction cs arbitrary: p)
  case Nil
  then show ?case by (simp add: position_of_def)
next
  case (Cons c cs)
  from Cons.prems position_of_nonneg [of cs "length cs"] width_positive [of c]
  have "\<not> pos < p" "p + width c + position_of cs (length cs) \<le> pos"
    by (simp_all add: position_of_Cons_Suc)
  with Cons.IH [of "p + width c"] show ?case
    by (simp add: position_of_Cons_Suc add.assoc)
qed

lemma prev_boundary_at:
  "k < length cs \<Longrightarrow>
     prev_boundary cs p best (p + position_of cs (Suc k)) = p + position_of cs k"
proof (induction cs arbitrary: p best k)
  case Nil
  then show ?case by simp
next
  case (Cons c cs)
  show ?case
  proof (cases k)
    case 0
    have "prev_boundary cs (p + width c) p (p + width c) = p"
      by (cases cs) simp_all
    with 0 width_positive [of c] show ?thesis
      by (simp add: position_of_0 position_of_Cons_Suc)
  next
    case (Suc j)
    with Cons.prems have "j < length cs" by simp
    from Cons.IH [OF this, of "p + width c" p] Suc position_of_nonneg [of cs "Suc j"]
      width_positive [of c]
    show ?thesis
      by (simp add: position_of_Cons_Suc add.assoc)
  qed
qed

lemma Length_position_of: "Length d = position_of (chars d) (length (chars d))"
proof -
  have "int (length (concat (map cells cs))) = sum_list (map width cs)" for cs
    by (induction cs) (simp_all add: cells_def width_def)
  then show ?thesis
    by (simp add: Length_def buffer_def position_of_def)
qed

lemma sci_textPositionAsPosition:
  "k \<le> length (chars d) \<Longrightarrow>
     textPositionAsPosition (sci d) (int k) = position_of (chars d) k"
proof (induction k)
  case 0
  then show ?case by (simp add: textPositionAsPosition_0 position_of_0)
next
  case (Suc k)
  then have k: "k < length (chars d)" by simp
  have "textPositionAsPosition (sci d) (int k + 1) =
      NextPosition d (textPositionAsPosition (sci d) (int k))"
    by (simp add: textPositionAsPosition_step sci_simps)
  with Suc k next_boundary_at [OF k, of 0] show ?case
    by (simp add: NextPosition_def add.commute)
qed

lemma position_of_increasing:
  "k < length cs \<Longrightarrow> position_of cs k < position_of cs (Suc k)"
  using width_positive [of "cs ! k"] by (simp add: position_of_Suc)

lemma sci_characters: "characters (sci d) (int (length (chars d)))"
  unfolding characters_def
proof (intro conjI ballI)
  show "0 \<le> int (length (chars d))" by simp
next
  fix t assume "t \<in> {0..<int (length (chars d))}"
  then obtain k where k: "t = int k" "k < length (chars d)"
    by (metis atLeastLessThan_iff nonneg_int_cases of_nat_less_iff)
  then have here: "textPositionAsPosition (sci d) t = position_of (chars d) k"
    by (simp add: sci_textPositionAsPosition)
  from k sci_textPositionAsPosition [of "Suc k" d]
  have there: "textPositionAsPosition (sci d) (t + 1) = position_of (chars d) (Suc k)"
    by (simp add: add.commute)
  from k(2) show "textPositionAsPosition (sci d) t < textPositionAsPosition (sci d) (t + 1)"
    unfolding here there by (rule position_of_increasing)
  from prev_boundary_at [OF k(2), of 0 0]
  show "SendScintilla (sci d) SCI_POSITIONBEFORE (textPositionAsPosition (sci d) (t + 1)) 0 =
      textPositionAsPosition (sci d) t"
    unfolding here there by (simp add: sci_simps PrevPosition_def)
next
  show "textPositionAsPosition (sci d) (int (length (chars d))) =
      SendScintilla (sci d) SCI_GETTEXTLENGTH 0 0"
    by (simp add: sci_textPositionAsPosition sci_simps Length_position_of)
qed

lemma relative_walk_forward:
  "j \<le> length (chars d) \<Longrightarrow>
     relative_walk (NextPosition d) m (position_of (chars d) j) =
       (if j + m \<le> length (chars d) then position_of (chars d) (j + m) else - 1)"
proof (induction m arbitrary: j)
  case 0
  then show ?case by simp
next
  case (Suc m)
  show ?case
  proof (cases "j < length (chars d)")
    case True
    from next_boundary_at [OF True, of 0] position_of_increasing [OF True]
    have "NextPosition d (position_of (chars d) j) = position_of (chars d) (Suc j)"
      "NextPosition d (position_of (chars d) j) \<noteq> position_of (chars d) j"
      by (simp_all add: NextPosition_def)
    with Suc.IH [of "Suc j"] True show ?thesis
      by (simp add: Let_def)
  next
    case False
    with Suc.prems have "j = length (chars d)" by simp
    with next_boundary_end [of 0 "chars d" "position_of (chars d) j"]
    show ?thesis
      by (simp add: NextPosition_def Let_def)
  qed
qed

lemma sci_GetRelativePosition:
  "GetRelativePosition d 0 (int k) =
     (if k \<le> length (chars d) then position_of (chars d) k else - 1)"
proof (cases "k = 0")
  case True
  then show ?thesis
    by (simp add: GetRelativePosition_def position_of_0)
next
  case False
  then have "GetRelativePosition d 0 (int k) = relative_walk (NextPosition d) k 0"
    by (simp add: GetRelativePosition_def)
  with relative_walk_forward [of 0 d k] show ?thesis
    by (simp add: position_of_0)
qed

lemma position_of_le_Length:
  assumes "k \<le> length (chars d)"
  shows "position_of (chars d) k \<le> Length d"
  using characters_mono [of "sci d" "int (length (chars d))" "int k" "int (length (chars d))"]
    sci_characters [of d] assms
  by (simp add: sci_textPositionAsPosition Length_position_of)

lemma sci_positionAsTextPosition:
  "positionAsTextPosition (sci d) (int k) =
     (if k \<le> length (chars d) then position_of (chars d) k else 0)"
proof (cases "k \<le> length (chars d)")
  case True
  with position_of_le_Length [OF True] position_of_nonneg [of "chars d" k] show ?thesis
    by (simp add: positionAsTextPosition_def sci_simps sci_GetRelativePosition)
next
  case False
  with position_of_nonneg [of "chars d" "length (chars d)"] show ?thesis
    by (simp add: positionAsTextPosition_def sci_simps sci_GetRelativePosition
        Length_position_of)
qed

lemma position_of_ge: "k \<le> length cs \<Longrightarrow> int k \<le> position_of cs k"
proof (induction k)
  case 0
  then show ?case by (simp add: position_of_0)
next
  case (Suc k)
  with position_of_increasing [of k cs] show ?case by simp
qed

lemma sci_characterCount: "characterCount (sci d) \<le> int (length (chars d))"
proof -
  define n where "n = length (chars d)"
  have len: "Length d = position_of (chars d) n" "int n \<le> position_of (chars d) n"
    by (simp_all add: n_def Length_position_of position_of_ge)
  then obtain l where l: "Length d = int l" "n \<le> l"
    by (metis position_of_nonneg zero_le_imp_eq_int of_nat_le_iff)
  show ?thesis
  proof (cases "l \<le> n")
    case True
    with l have "l = n" by simp
    with l sci_positionAsTextPosition [of d n] len show ?thesis
      by (simp add: characterCount_def sci_simps n_def)
  next
    case False
    with sci_positionAsTextPosition [of d l] l show ?thesis
      by (simp add: characterCount_def sci_simps n_def)
  qed
qed

lemma length_cells: "int (length (concat (map cells cs))) = position_of cs (length cs)"
  by (induction cs) (simp_all add: cells_def width_def position_of_def)

lemma position_of_take: "k \<le> length cs \<Longrightarrow> position_of (take k cs) k = position_of cs k"
  by (simp add: position_of_def)

lemma drop_cells:
  assumes "k \<le> length cs"
  shows "drop (nat (position_of cs k)) (concat (map cells cs)) = concat (map cells (drop k cs))"
proof -
  have "concat (map cells cs) =
      concat (map cells (take k cs)) @ concat (map cells (drop k cs))"
    by (metis append_take_drop_id concat_append map_append)
  moreover from assms length_cells [of "take k cs"]
  have "nat (position_of cs k) = length (concat (map cells (take k cs)))"
    by (simp add: position_of_take)
  ultimately show ?thesis by simp
qed

lemma take_cells:
  assumes "k \<le> length cs"
  shows "take (nat (position_of cs k)) (concat (map cells cs)) = concat (map cells (take k cs))"
proof -
  have "concat (map cells cs) =
      concat (map cells (take k cs)) @ concat (map cells (drop k cs))"
    by (metis append_take_drop_id concat_append map_append)
  moreover from assms length_cells [of "take k cs"]
  have "nat (position_of cs k) = length (concat (map cells (take k cs)))"
    by (simp add: position_of_take)
  ultimately show ?thesis by simp
qed

lemma position_of_drop:
  assumes "s \<le> e" "e \<le> length cs"
  shows "position_of cs e - position_of cs s = position_of (drop s cs) (e - s)"
proof -
  from assms have "take e cs = take s cs @ take (e - s) (drop s cs)"
    by (metis le_add_diff_inverse take_add)
  then show ?thesis
    by (simp add: position_of_def)
qed

lemma sci_GetTextRange:
  assumes "s \<le> e" "e \<le> length (chars d)"
  shows "GetTextRange d (position_of (chars d) s) (position_of (chars d) e) =
     map fst (concat (map cells (take (e - s) (drop s (chars d)))))"
proof -
  from assms have s: "s \<le> length (chars d)" and e: "e - s \<le> length (drop s (chars d))"
    by simp_all
  have "position_of (chars d) e \<noteq> - 1"
    using position_of_nonneg [of "chars d" e] by simp
  then have "GetTextRange d (position_of (chars d) s) (position_of (chars d) e) =
      map fst (take (nat (position_of (drop s (chars d)) (e - s)))
        (concat (map cells (drop s (chars d)))))"
    by (simp add: GetTextRange_def buffer_def drop_cells [OF s] position_of_drop [OF assms])
  with take_cells [OF e] show ?thesis by simp
qed

lemma sci_stores_range: "stores_range (sci d)"
  unfolding stores_range_def
proof (intro ballI)
  fix cpMin cpMax
  assume "cpMin \<in> {0..SendScintilla (sci d) SCI_GETTEXTLENGTH 0 0}"
    and "cpMax \<in> {cpMin..SendScintilla (sci d) SCI_GETTEXTLENGTH 0 0}"
  then have "0 \<le> cpMin" "cpMin \<le> cpMax" "cpMax \<le> int (length (buffer d))"
    by (simp_all add: sci_simps Length_def)
  then show "int (length (SendScintilla_buf (sci d) SCI_GETTEXTRANGE cpMin cpMax)) =
      cpMax - cpMin"
    by (simp add: sci_simps GetTextRange_def)
qed

lemma sci_positionAsTextPosition_nonneg: "0 \<le> positionAsTextPosition (sci d) position"
  by (simp add: positionAsTextPosition_def sci_simps)

lemma abc_chars: "length (chars abc) = 3"
  by (simp add: abc_def)

lemma abc_characterCount: "characterCount (sci abc) = 3"
  by code_simp

lemma abc_attributes: "attributes (sci abc) 1 = Some (0, 2)"
  by code_simp

lemma abc_character_style:
  "character_style (sci abc) 0 = 5" "character_style (sci abc) 1 = 5"
  "character_style (sci abc) 2 = 7"
  by (simp_all add: character_style_def) code_simp+

lemma cafe_chars: "length (chars cafe) = 5"
  by (simp add: cafe_def)

subsection \<open>The style run\<close>

lemma attributes_start_run:
  assumes sb: "characters sb n" and offset: "offset < n"
  shows "k = int m \<Longrightarrow> k \<le> offset \<Longrightarrow>
     (\<forall>t\<in>{k..offset}. character_style sb t = style) \<Longrightarrow>
     \<exists>start. attributes_start sb style (textPositionAsPosition sb k) k = Some start \<and>
        0 \<le> start \<and> start \<le> offset \<and>
        (\<forall>t\<in>{start..offset}. character_style sb t = style) \<and>
        (start = 0 \<or> character_style sb (start - 1) \<noteq> style)"
proof (induction m arbitrary: k)
  case 0
  then show ?case
    by (simp add: attributes_start.simps [of sb style 0] textPositionAsPosition_0)
next
  case (Suc m)
  then have k: "0 < k" "k - 1 \<in> {0..<n}" "k - 1 = int m" using offset by simp_all
  from characters_mono [OF sb, of 0 k] k Suc.prems offset
  have pos: "0 < textPositionAsPosition sb k"
    by (simp add: textPositionAsPosition_0)
  from characters_before [OF sb k(1)] Suc.prems offset
  have before: "SendScintilla sb SCI_POSITIONBEFORE (textPositionAsPosition sb k) 0 =
      textPositionAsPosition sb (k - 1)"
    by simp
  show ?case
  proof (cases "character_style sb (k - 1) = style")
    case False
    with pos before have "attributes_start sb style (textPositionAsPosition sb k) k = Some k"
      by (simp add: attributes_start.simps [of sb style "textPositionAsPosition sb k"]
          character_style_def)
    with False Suc.prems k show ?thesis by simp
  next
    case True
    have "\<forall>t\<in>{k - 1..offset}. character_style sb t = style"
    proof
      fix t assume "t \<in> {k - 1..offset}"
      then have "t = k - 1 \<or> t \<in> {k..offset}" by auto
      with True Suc.prems(3) show "character_style sb t = style" by blast
    qed
    from Suc.IH [OF k(3) _ this] Suc.prems
    obtain start where "attributes_start sb style (textPositionAsPosition sb (k - 1)) (k - 1) = Some start"
      "0 \<le> start" "start \<le> offset" "\<forall>t\<in>{start..offset}. character_style sb t = style"
      "start = 0 \<or> character_style sb (start - 1) \<noteq> style"
      by auto
    moreover from pos before True
    have "attributes_start sb style (textPositionAsPosition sb k) k =
        attributes_start sb style (textPositionAsPosition sb (k - 1)) (k - 1)"
      by (simp add: attributes_start.simps [of sb style "textPositionAsPosition sb k"]
          character_style_def)
    ultimately show ?thesis by auto
  qed
qed

lemma attributes_end_run:
  assumes sb: "characters sb n"
  shows "n - e = int m \<Longrightarrow> offset < e \<Longrightarrow> e \<le> n \<Longrightarrow> 0 \<le> offset \<Longrightarrow>
     (\<forall>t\<in>{offset..<e}. character_style sb t = style) \<Longrightarrow>
     \<exists>endOffset. attributes_end sb style (SendScintilla sb SCI_GETTEXTLENGTH 0 0)
          (textPositionAsPosition sb e) e = Some endOffset \<and>
        offset < endOffset \<and> endOffset \<le> n \<and>
        (\<forall>t\<in>{offset..<endOffset}. character_style sb t = style) \<and>
        (textPositionAsPosition sb endOffset = SendScintilla sb SCI_GETTEXTLENGTH 0 0 \<or>
         character_style sb endOffset \<noteq> style)"
proof (induction m arbitrary: e)
  case 0
  then have "e = n" by simp
  moreover have "attributes_end sb style (SendScintilla sb SCI_GETTEXTLENGTH 0 0)
      (textPositionAsPosition sb n) n = Some n"
    by (subst attributes_end.simps) (simp add: characters_end [OF sb])
  ultimately show ?case
    using 0 characters_end [OF sb] by simp
next
  case (Suc m)
  then have e: "0 \<le> e" "e < n" "n - (e + 1) = int m" by simp_all
  from characters_mono [OF sb e(1), of n] e characters_end [OF sb]
  have pos: "textPositionAsPosition sb e < SendScintilla sb SCI_GETTEXTLENGTH 0 0"
    by simp
  show ?case
  proof (cases "character_style sb e = style")
    case False
    with pos have "attributes_end sb style (SendScintilla sb SCI_GETTEXTLENGTH 0 0)
        (textPositionAsPosition sb e) e = Some e"
      by (simp add: attributes_end.simps [of sb style _ "textPositionAsPosition sb e"]
          character_style_def)
    with False Suc.prems show ?thesis by simp
  next
    case True
    have "\<forall>t\<in>{offset..<e + 1}. character_style sb t = style"
    proof
      fix t assume "t \<in> {offset..<e + 1}"
      then have "t = e \<or> t \<in> {offset..<e}" by auto
      with True Suc.prems(5) show "character_style sb t = style" by blast
    qed
    from Suc.IH [OF e(3) _ _ Suc.prems(4) this] Suc.prems e
    obtain endOffset where
      "attributes_end sb style (SendScintilla sb SCI_GETTEXTLENGTH 0 0)
         (textPositionAsPosition sb (e + 1)) (e + 1) = Some endOffset"
      "offset < endOffset" "endOffset \<le> n"
      "\<forall>t\<in>{offset..<endOffset}. character_style sb t = style"
      "textPositionAsPosition sb endOffset = SendScintilla sb SCI_GETTEXTLENGTH 0 0 \<or>
         character_style sb endOffset \<noteq> style"
      by auto
    moreover from pos True textPositionAsPosition_step [OF e(1), of sb]
    have "attributes_end sb style (SendScintilla sb SCI_GETTEXTLENGTH 0 0)
        (textPositionAsPosition sb e) e =
        attributes_end sb style (SendScintilla sb SCI_GETTEXTLENGTH 0 0)
        (textPositionAsPosition sb (e + 1)) (e + 1)"
      by (simp add: attributes_end.simps [of sb style _ "textPositionAsPosition sb e"]
          character_style_def)
    ultimately show ?thesis by auto
  qed
qed

lemma attributes_run:
  assumes sb: "characters sb n" and offset: "0 \<le> offset" "offset < n"
  shows "\<exists>startOffset endOffset.
     attributes sb offset = Some (startOffset, endOffset) \<and>
     0 \<le> startOffset \<and> startOffset \<le> offset \<and> offset < endOffset \<and> endOffset \<le> n \<and>
     (\<forall>t\<in>{startOffset..<endOffset}. character_style sb t = character_style sb offset) \<and>
     (startOffset = 0 \<or> character_style sb (startOffset - 1) \<noteq> character_style sb offset) \<and>
     (textPositionAsPosition sb endOffset = SendScintilla sb SCI_GETTEXTLENGTH 0 0 \<or>
      character_style sb endOffset \<noteq> character_style sb offset)"
proof -
  define style where "style = character_style sb offset"
  have "\<forall>t\<in>{offset..offset}. character_style sb t = style"
    by (simp add: style_def)
  from attributes_start_run [OF sb offset(2) _ _ this, of "nat offset"] offset
  obtain startOffset where start:
    "attributes_start sb style (textPositionAsPosition sb offset) offset = Some startOffset"
    "0 \<le> startOffset" "startOffset \<le> offset"
    "\<forall>t\<in>{startOffset..offset}. character_style sb t = style"
    "startOffset = 0 \<or> character_style sb (startOffset - 1) \<noteq> style"
    by auto
  have "\<forall>t\<in>{offset..<offset + 1}. character_style sb t = style"
    by (auto simp: style_def)
  from attributes_end_run [OF sb _ _ _ offset(1) this, of "nat (n - (offset + 1))"] offset
  obtain endOffset where ending:
    "attributes_end sb style (SendScintilla sb SCI_GETTEXTLENGTH 0 0)
       (textPositionAsPosition sb (offset + 1)) (offset + 1) = Some endOffset"
    "offset < endOffset" "endOffset \<le> n"
    "\<forall>t\<in>{offset..<endOffset}. character_style sb t = style"
    "textPositionAsPosition sb endOffset = SendScintilla sb SCI_GETTEXTLENGTH 0 0 \<or>
       character_style sb endOffset \<noteq> style"
    by auto
  from start(1) ending(1) textPositionAsPosition_step [OF offset(1), of sb]
  have "attributes sb offset = Some (startOffset, endOffset)"
    by (simp add: attributes_def Let_def style_def character_style_def)
  moreover have "\<forall>t\<in>{startOffset..<endOffset}. character_style sb t = style"
  proof
    fix t assume "t \<in> {startOffset..<endOffset}"
    then have "t \<in> {startOffset..offset} \<or> t \<in> {offset..<endOffset}" by auto
    with start(4) ending(4) show "character_style sb t = style" by blast
  qed
  ultimately show ?thesis
    using start ending unfolding style_def by blast
qed

text \<open>On the document engine the scanner finds the run of every character.\<close>

lemma sci_attributes_run:
  assumes "offset < length (chars d)"
  shows "\<exists>startOffset endOffset.
     attributes (sci d) (int offset) = Some (startOffset, endOffset) \<and>
     0 \<le> startOffset \<and> startOffset \<le> int offset \<and> int offset < endOffset \<and>
     endOffset \<le> int (length (chars d)) \<and>
     (\<forall>t\<in>{startOffset..<endOffset}.
        character_style (sci d) t = character_style (sci d) (int offset)) \<and>
     (startOffset = 0 \<or>
      character_style (sci d) (startOffset - 1) \<noteq> character_style (sci d) (int offset)) \<and>
     (textPositionAsPosition (sci d) endOffset = SendScintilla (sci d) SCI_GETTEXTLENGTH 0 0 \<or>
      character_style (sci d) endOffset \<noteq> character_style (sci d) (int offset))"
  using attributes_run [OF sci_characters, of "int offset" d] assms by simp

text \<open>
  C2. The scanner finds the maximal style run. For an engine whose document has \<open>n\<close>
  characters (\<open>characters sb n\<close>) and whose \<open>characterCount\<close> does not exceed \<open>n\<close>,
  and an \<open>offset\<close> with \<open>0 \<le> offset < characterCount()\<close>: both loops end, and the
  offsets \<open>attributes\<close> stores satisfy \<open>startOffset \<le> offset < endOffset\<close>; every
  character at a text position from \<open>startOffset\<close> up to but not including
  \<open>endOffset\<close> has the style of the character at \<open>offset\<close>; \<open>startOffset\<close> is 0 or
  the character before it has another style; and \<open>endOffset\<close> is at the text length
  or the character at it has another style.
\<close>

theorem attributes_maximal_run:
  assumes "characters sb n" and "characterCount sb \<le> n"
    and "0 \<le> offset" and "offset < characterCount sb"
  shows "\<exists>startOffset endOffset.
     attributes sb offset = Some (startOffset, endOffset) \<and>
     startOffset \<le> offset \<and> offset < endOffset \<and>
     (\<forall>t\<in>{startOffset..<endOffset}. character_style sb t = character_style sb offset) \<and>
     (startOffset = 0 \<or> character_style sb (startOffset - 1) \<noteq> character_style sb offset) \<and>
     (textPositionAsPosition sb endOffset = SendScintilla sb SCI_GETTEXTLENGTH 0 0 \<or>
      character_style sb endOffset \<noteq> character_style sb offset)"
proof -
  from assms have "offset < n" by simp
  from attributes_run [OF assms(1) assms(3) this] show ?thesis by blast
qed

theorem attributes_maximal_run_witness:
  "characters (sci abc) 3 \<and> characterCount (sci abc) = 3 \<and>
   attributes (sci abc) 1 = Some (0, 2) \<and>
   character_style (sci abc) 0 = character_style (sci abc) 1 \<and>
   character_style (sci abc) 2 \<noteq> character_style (sci abc) 1"
proof -
  have n: "characters (sci abc) 3"
    using sci_characters [of abc] by (simp add: abc_chars)
  have offset: "characterCount (sci abc) \<le> 3" "(0::int) \<le> 1" "1 < characterCount (sci abc)"
    by (simp_all add: abc_characterCount)
  from attributes_maximal_run [OF n offset]
  obtain startOffset endOffset where run:
    "attributes (sci abc) 1 = Some (startOffset, endOffset)"
    "\<forall>t\<in>{startOffset..<endOffset}. character_style (sci abc) t = character_style (sci abc) 1"
    "textPositionAsPosition (sci abc) endOffset = SendScintilla (sci abc) SCI_GETTEXTLENGTH 0 0 \<or>
      character_style (sci abc) endOffset \<noteq> character_style (sci abc) 1"
    by blast
  from run(1) have ends: "startOffset = 0" "endOffset = 2"
    by (simp_all add: abc_attributes)
  have "(0::int) \<in> {0..<2}" by simp
  with run(2) have same: "character_style (sci abc) 0 = character_style (sci abc) 1"
    unfolding ends by (rule bspec)
  have "character_style (sci abc) 2 \<noteq> character_style (sci abc) 1"
    by (simp add: abc_character_style)
  with n same show ?thesis
    by (simp add: abc_characterCount abc_attributes)
qed

subsection \<open>Bytes and text\<close>

lemma split3: "(c::nat) div 4096 * 4096 + c div 64 mod 64 * 64 + c mod 64 = c"
proof -
  have "c mod 4096 = 64 * (c div 64 mod 64) + c mod 64"
    using mod_mult2_eq [of c 64 64] by simp
  moreover have "c div 4096 * 4096 + c mod 4096 = c"
    by (rule div_mult_mod_eq)
  ultimately show ?thesis by linarith
qed

lemma split4:
  "(c::nat) div 262144 * 262144 + c div 4096 mod 64 * 4096 + c div 64 mod 64 * 64 + c mod 64 = c"
proof -
  have "c mod 262144 = 4096 * (c div 4096 mod 64) + c mod 4096"
    using mod_mult2_eq [of c 4096 64] by simp
  moreover have "c mod 4096 = 64 * (c div 64 mod 64) + c mod 64"
    using mod_mult2_eq [of c 64 64] by simp
  moreover have "c div 262144 * 262144 + c mod 262144 = c"
    by (rule div_mult_mod_eq)
  ultimately show ?thesis by linarith
qed

lemma split2: "(c::nat) div 64 * 64 + c mod 64 = c"
  by (rule div_mult_mod_eq)

lemma utf8_first_utf8_of:
  assumes "c < 0x110000" "\<not> is_high c" "\<not> is_low c"
  shows "utf8_first (utf8_of c @ bs) = Some (c, length (utf8_of c) - 1)"
proof -
  consider "c < 0x80" | "0x80 \<le> c" "c < 0x800" | "0x800 \<le> c" "c < 0x10000"
    | "0x10000 \<le> c" by linarith
  then show ?thesis
  proof cases
    case 1
    then show ?thesis by (simp add: utf8_of_def)
  next
    case 2
    then have enc: "utf8_of c = [0xC0 + c div 64, 0x80 + c mod 64]"
      by (simp add: utf8_of_def)
    from 2 have "2 \<le> c div 64" "c div 64 < 32" "c mod 64 < 64" by simp_all
    then have "utf8_first ([0xC0 + c div 64, 0x80 + c mod 64] @ bs) =
        Some (c div 64 * 64 + c mod 64, 1)"
      by (simp add: is_continuation_def)
    then show ?thesis
      unfolding enc by (simp only: split2 list.size length_Cons) simp
  next
    case 3
    then have enc: "utf8_of c = [0xE0 + c div 4096, 0x80 + c div 64 mod 64, 0x80 + c mod 64]"
      by (simp add: utf8_of_def)
    from 3 have "c div 4096 < 16" "c div 64 mod 64 < 64" "c mod 64 < 64" by simp_all
    moreover from 3 assms have "0x800 \<le> c div 4096 * 4096 + c div 64 mod 64 * 64 + c mod 64"
      "\<not> is_high (c div 4096 * 4096 + c div 64 mod 64 * 64 + c mod 64)"
      "\<not> is_low (c div 4096 * 4096 + c div 64 mod 64 * 64 + c mod 64)"
      unfolding split3 by simp_all
    ultimately have "utf8_first ([0xE0 + c div 4096, 0x80 + c div 64 mod 64, 0x80 + c mod 64] @ bs) =
        Some (c div 4096 * 4096 + c div 64 mod 64 * 64 + c mod 64, 2)"
      by (simp add: is_continuation_def Let_def)
    then show ?thesis
      unfolding enc by (simp only: split3 list.size length_Cons) simp
  next
    case 4
    with assms have enc: "utf8_of c = [0xF0 + c div 262144, 0x80 + c div 4096 mod 64,
        0x80 + c div 64 mod 64, 0x80 + c mod 64]"
      by (simp add: utf8_of_def)
    from 4 assms have "c div 262144 < 5" "c div 4096 mod 64 < 64" "c div 64 mod 64 < 64"
      "c mod 64 < 64" by simp_all
    moreover from 4 assms
    have "0x10000 \<le> c div 262144 * 262144 + c div 4096 mod 64 * 4096 + c div 64 mod 64 * 64 +
        c mod 64"
      "c div 262144 * 262144 + c div 4096 mod 64 * 4096 + c div 64 mod 64 * 64 + c mod 64 <
        0x110000"
      unfolding split4 by simp_all
    ultimately have "utf8_first ([0xF0 + c div 262144, 0x80 + c div 4096 mod 64,
        0x80 + c div 64 mod 64, 0x80 + c mod 64] @ bs) =
        Some (c div 262144 * 262144 + c div 4096 mod 64 * 4096 + c div 64 mod 64 * 64 +
          c mod 64, 3)"
      by (simp add: is_continuation_def Let_def)
    then show ?thesis
      unfolding enc by (simp only: split4 list.size length_Cons) simp
  qed
qed

lemma utf8_of_not_Nil: "utf8_of c \<noteq> []"
  by (simp add: utf8_of_def)

lemma utf8_to_utf16_utf8_of:
  assumes "c < 0x110000" "\<not> is_high c" "\<not> is_low c"
  shows "utf8_to_utf16 (utf8_of c @ bs) = utf16_of c @ utf8_to_utf16 bs"
proof -
  obtain b0 rest where enc: "utf8_of c = b0 # rest"
    using utf8_of_not_Nil [of c] by (cases "utf8_of c") auto
  from utf8_first_utf8_of [OF assms, of bs]
  have "utf8_first (b0 # rest @ bs) = Some (c, length rest)"
    by (simp add: enc)
  then show ?thesis
    by (simp add: enc)
qed

lemma surrogate_pair:
  assumes "is_high u" "is_low v"
  defines "c \<equiv> 0x10000 + (u - 0xD800) * 1024 + (v - 0xDC00)"
  shows "c < 0x110000" "\<not> is_high c" "\<not> is_low c" "utf16_of c = [u, v]"
proof -
  define a where "a = u - 0xD800"
  define b where "b = v - 0xDC00"
  from assms(1,2) have ab: "u = 0xD800 + a" "a < 1024" "v = 0xDC00 + b" "b < 1024"
    unfolding is_high_def is_low_def a_def b_def by linarith+
  then have c: "c = 0x10000 + (a * 1024 + b)"
    by (simp add: c_def)
  with ab show "c < 0x110000" "\<not> is_high c" "\<not> is_low c"
    by (simp_all add: is_high_def is_low_def)
  from ab have "(a * 1024 + b) div 1024 = a" "(a * 1024 + b) mod 1024 = b"
    by simp_all
  with ab show "utf16_of c = [u, v]"
    unfolding c by (simp add: utf16_of_def)
qed

lemma utf8_to_utf16_utf16_to_utf8:
  "well_formed us \<Longrightarrow> \<forall>u\<in>set us. u < 0x10000 \<Longrightarrow> utf8_to_utf16 (utf16_to_utf8 us) = us"
proof (induction us rule: utf16_to_utf8.induct)
  case 1
  then show ?case by simp
next
  case (2 u)
  then have "u < 0x110000" "\<not> is_high u" "\<not> is_low u" by simp_all
  from utf8_to_utf16_utf8_of [OF this, of "[]"] 2 show ?case
    by (simp add: utf16_of_def)
next
  case (3 u v rest)
  show ?case
  proof (cases "is_high u")
    case True
    with "3.prems" have low: "is_low v" and rest: "well_formed rest" "\<forall>u\<in>set rest. u < 0x10000"
      by simp_all
    from surrogate_pair [OF True low]
      utf8_to_utf16_utf8_of [of "0x10000 + (u - 0xD800) * 1024 + (v - 0xDC00)"
        "utf16_to_utf8 rest"]
    have "utf8_to_utf16 (utf8_of (0x10000 + (u - 0xD800) * 1024 + (v - 0xDC00)) @
        utf16_to_utf8 rest) = [u, v] @ utf8_to_utf16 (utf16_to_utf8 rest)"
      by simp
    with True low "3.IH"(1) rest show ?thesis by simp
  next
    case False
    with "3.prems" have u: "\<not> is_low u" "u < 0x110000"
      and rest: "well_formed (v # rest)" "\<forall>u\<in>set (v # rest). u < 0x10000"
      by simp_all
    from utf8_to_utf16_utf8_of [OF u(2) False u(1), of "utf16_to_utf8 (v # rest)"] u
      "3.prems"(2)
    have "utf8_to_utf16 (utf8_of u @ utf16_to_utf8 (v # rest)) =
        u # utf8_to_utf16 (utf16_to_utf8 (v # rest))"
      by (simp add: utf16_of_def)
    with False u "3.IH"(3) rest show ?thesis by simp
  qed
qed

lemma utf8_of_bytes: "c < 0x110000 \<Longrightarrow> \<forall>b\<in>set (utf8_of c). b < 256"
proof -
  assume c: "c < 0x110000"
  then have "c div 64 < 32" if "c < 0x800" using that by simp
  moreover have "c div 4096 < 16" if "c < 0x10000" using that by simp
  moreover from c have "c div 262144 < 5" by simp
  moreover have "c mod 64 < 64" "c div 64 mod 64 < 64" "c div 4096 mod 64 < 64" by simp_all
  ultimately show ?thesis
    by (auto simp: utf8_of_def)
qed

lemma utf16_to_utf8_bytes:
  "\<forall>u\<in>set us. u < 0x10000 \<Longrightarrow> \<forall>b\<in>set (utf16_to_utf8 us). b < 256"
proof (induction us rule: utf16_to_utf8.induct)
  case 1
  then show ?case by simp
next
  case (2 u)
  then have "u < 0x110000" by simp
  from utf8_of_bytes [OF this] show ?case by simp
next
  case (3 u v rest)
  show ?case
  proof (cases "is_high u \<and> is_low v")
    case True
    then have "0x10000 + (u - 0xD800) * 1024 + (v - 0xDC00) < 0x110000"
      using surrogate_pair(1) [of u v] by simp
    from utf8_of_bytes [OF this] True 3 show ?thesis by auto
  next
    case False
    from "3.prems" have "u < 0x110000" by simp
    from utf8_of_bytes [OF this] False 3 show ?thesis by auto
  qed
qed

lemma map_unat_of_nat_byte:
  "\<forall>b\<in>set bs. b < 256 \<Longrightarrow> map unat (map of_nat bs :: byte list) = bs"
  by (induction bs) (simp_all add: unat_of_nat)

lemma map_of_nat_unat: "map (of_nat \<circ> unat) (ws :: 'a::len word list) = ws"
  by (induction ws) simp_all

lemma unat_QChar: "\<forall>u\<in>set (map unat (str :: QString)). u < 0x10000"
proof
  fix u assume "u \<in> set (map unat str)"
  then obtain w :: QChar where "u = unat w" by auto
  with unsigned_less [of w, where ?'a = nat] show "u < 0x10000" by simp
qed

lemma QString_utf8_round_trip:
  assumes "utf8_representable str"
  shows "QString_fromUtf8 (QString_toUtf8 str) = str"
proof -
  have "map unat (QString_toUtf8 str) = utf16_to_utf8 (map unat str)"
    unfolding QString_toUtf8_def
    by (rule map_unat_of_nat_byte) (rule utf16_to_utf8_bytes [OF unat_QChar])
  with utf8_to_utf16_utf16_to_utf8 [OF _ unat_QChar, of str] assms show ?thesis
    by (simp add: QString_fromUtf8_def utf8_representable_def map_of_nat_unat)
qed

lemma ucast_byte_QChar: "\<not> c > 0xFF \<Longrightarrow> ucast (ucast c :: byte) = (c :: QChar)"
proof -
  assume "\<not> c > 0xFF"
  then have "unat c \<le> 255" by (simp add: word_less_nat_alt not_less)
  then have "unat (ucast (ucast c :: byte) :: QChar) = unat c"
    by (simp add: unsigned_ucast_eq unsigned_take_bit_eq take_bit_nat_eq_self)
  then show ?thesis by (simp add: word_unat_eq_iff)
qed

lemma QString_latin1_round_trip:
  assumes "latin1_representable str"
  shows "QString_fromLatin1 (QString_toLatin1 str) = str"
  using assms unfolding latin1_representable_def QString_fromLatin1_def QString_toLatin1_def
  by (induction str) (auto simp: ucast_byte_QChar not_less)

lemma well_formed_utf16_of:
  assumes "c < 0x110000" "\<not> is_high c" "\<not> is_low c"
  shows "well_formed (utf16_of c @ ws) = well_formed ws"
proof (cases "c < 0x10000")
  case True
  with assms show ?thesis
    by (cases ws) (simp_all add: utf16_of_def)
next
  case False
  with assms have "(c - 0x10000) div 1024 < 1024" "(c - 0x10000) mod 1024 < 1024" by simp_all
  then have "is_high (0xD800 + (c - 0x10000) div 1024)" "is_low (0xDC00 + (c - 0x10000) mod 1024)"
    by (simp_all add: is_high_def is_low_def)
  with False show ?thesis
    by (simp add: utf16_of_def)
qed

lemma utf16_of_units:
  assumes "c < 0x110000"
  shows "\<forall>u\<in>set (utf16_of c). u < 0x10000"
proof -
  from assms have "(c - 0x10000) div 1024 < 1024" by simp
  then have "0xD800 + (c - 0x10000) div 1024 < 0x10000" by linarith
  moreover have "0xDC00 + (c - 0x10000) mod 1024 < 0x10000"
    using mod_less_divisor [of 1024 "c - 0x10000"] by linarith
  ultimately show ?thesis by (simp add: utf16_of_def)
qed

lemma utf8_first_valid:
  assumes "utf8_first bs = Some (c, k)"
  shows "c < 0x110000 \<and> \<not> is_high c \<and> \<not> is_low c"
proof (cases bs)
  case Nil
  with assms show ?thesis by simp
next
  case (Cons b0 rest)
  consider "b0 < 0x80" | "0xC2 \<le> b0" "b0 < 0xE0" | "0xE0 \<le> b0" "b0 < 0xF0"
    | "0xF0 \<le> b0" "b0 < 0xF5" | "0x80 \<le> b0" "b0 < 0xC2" | "0xF5 \<le> b0"
    by linarith
  then show ?thesis
  proof cases
    case 1
    with assms Cons show ?thesis by (auto simp: is_high_def is_low_def)
  next
    case 2
    with assms Cons obtain b1 where "c = (b0 - 0xC0) * 64 + (b1 - 0x80)" "is_continuation b1"
      by (auto split: list.splits if_splits)
    with 2 have "c < 0x800" unfolding is_continuation_def by linarith
    then show ?thesis by (simp add: is_high_def is_low_def)
  next
    case 3
    with assms Cons obtain b1 b2 where
      c: "c = (b0 - 0xE0) * 4096 + (b1 - 0x80) * 64 + (b2 - 0x80)"
      and "is_continuation b1" "is_continuation b2" "\<not> is_high c" "\<not> is_low c"
      by (auto simp: Let_def split: list.splits if_splits)
    with 3 have "c < 0x10000" unfolding is_continuation_def by linarith
    with \<open>\<not> is_high c\<close> \<open>\<not> is_low c\<close> show ?thesis by simp
  next
    case 4
    with assms Cons have "0x10000 \<le> c" "c < 0x110000"
      by (auto simp: Let_def split: list.splits if_splits)
    then show ?thesis by (simp add: is_high_def is_low_def)
  next
    case 5
    with assms Cons show ?thesis by simp
  next
    case 6
    with assms Cons show ?thesis by simp
  qed
qed

lemma utf8_to_utf16_well_formed:
  "well_formed (utf8_to_utf16 bs) \<and> (\<forall>u\<in>set (utf8_to_utf16 bs). u < 0x10000)"
proof (induction bs rule: utf8_to_utf16.induct)
  case 1
  then show ?case by simp
next
  case (2 b0 bs)
  show ?case
  proof (cases "utf8_first (b0 # bs)")
    case None
    from "2.IH"(1) [OF None]
    have "well_formed (utf8_to_utf16 bs)" "\<forall>u\<in>set (utf8_to_utf16 bs). u < 0x10000"
      by blast+
    moreover have "well_formed (0xFFFD # ws) = well_formed ws" for ws
      by (cases ws) (simp_all add: is_high_def is_low_def)
    ultimately show ?thesis using None by (simp del: utf8_first.simps)
  next
    case (Some ck)
    obtain c k where ck: "ck = (c, k)" by (cases ck)
    with Some have first: "utf8_first (b0 # bs) = Some (c, k)" by (simp only:)
    from utf8_first_valid [OF first]
    have c: "c < 0x110000" "\<not> is_high c" "\<not> is_low c" by blast+
    from "2.IH"(2) [OF first refl]
    have rest: "well_formed (utf8_to_utf16 (drop k bs))"
      "\<forall>u\<in>set (utf8_to_utf16 (drop k bs)). u < 0x10000"
      by blast+
    have eq: "utf8_to_utf16 (b0 # bs) = utf16_of c @ utf8_to_utf16 (drop k bs)"
      by (simp only: utf8_to_utf16.simps first option.case prod.case)
    from rest(1) have "well_formed (utf8_to_utf16 (b0 # bs))"
      unfolding eq by (simp only: well_formed_utf16_of [OF c])
    moreover from rest(2) utf16_of_units [OF c(1)]
    have "\<forall>u\<in>set (utf8_to_utf16 (b0 # bs)). u < 0x10000"
      unfolding eq by (simp only: set_append ball_Un)
    ultimately show ?thesis by blast
  qed
qed

lemma map_unat_of_nat_QChar:
  "\<forall>u\<in>set us. u < 0x10000 \<Longrightarrow> map unat (map of_nat us :: QString) = us"
  by (induction us) (simp_all add: unat_of_nat)

lemma QString_utf8_representable:
  "QString_fromUtf8 (QString_toUtf8 str) = str \<longleftrightarrow> utf8_representable str"
proof
  assume "utf8_representable str"
  then show "QString_fromUtf8 (QString_toUtf8 str) = str"
    by (rule QString_utf8_round_trip)
next
  assume given: "QString_fromUtf8 (QString_toUtf8 str) = str"
  define bs where "bs = map unat (QString_toUtf8 str)"
  from utf8_to_utf16_well_formed [of bs]
  have "map unat (map of_nat (utf8_to_utf16 bs) :: QString) = utf8_to_utf16 bs"
    by (intro map_unat_of_nat_QChar) blast
  with given have "map unat str = utf8_to_utf16 bs"
    by (simp add: QString_fromUtf8_def bs_def)
  with utf8_to_utf16_well_formed [of bs] show "utf8_representable str"
    by (simp add: utf8_representable_def)
qed

lemma QString_latin1_representable:
  "QString_fromLatin1 (QString_toLatin1 str) = str \<longleftrightarrow> latin1_representable str"
proof
  assume "latin1_representable str"
  then show "QString_fromLatin1 (QString_toLatin1 str) = str"
    by (rule QString_latin1_round_trip)
next
  assume given: "QString_fromLatin1 (QString_toLatin1 str) = str"
  have "unat (ucast (b :: byte) :: QChar) \<le> 255" for b
    using unsigned_less [of b, where ?'a = nat]
    by (simp add: unsigned_ucast_eq take_bit_nat_eq_self)
  then have "(ucast (b :: byte) :: QChar) \<le> 0xFF" for b
    by (simp add: word_le_nat_alt)
  then have "\<forall>c\<in>set (QString_fromLatin1 bs). c \<le> 0xFF" for bs
    by (auto simp: QString_fromLatin1_def)
  with given show "latin1_representable str"
    unfolding latin1_representable_def by metis
qed

lemma Qt_simps:
  "fromUtf8 Qt = QString_fromUtf8" "toUtf8 Qt = QString_toUtf8"
  "fromLatin1 Qt = QString_fromLatin1" "toLatin1 Qt = QString_toLatin1"
  by (simp_all add: Qt_def)

text \<open>
  C3. Both conversions choose the encoding by the same test, UTF-8 when the engine's
  code page is \<open>SC_CP_UTF8\<close> and Latin-1 otherwise, and a text that the encoding so
  chosen can represent comes back unchanged from \<open>bytesAsText\<close> after
  \<open>textAsBytes\<close>. No other text does.
\<close>

theorem conversions_round_trip:
  "bytesAsText Qt sb bytes =
     (if SendScintilla sb SCI_GETCODEPAGE 0 0 = SC_CP_UTF8 then QString_fromUtf8 bytes
      else QString_fromLatin1 bytes) \<and>
   textAsBytes Qt sb str =
     (if SendScintilla sb SCI_GETCODEPAGE 0 0 = SC_CP_UTF8 then QString_toUtf8 str
      else QString_toLatin1 str) \<and>
   (representable sb str \<longrightarrow> bytesAsText Qt sb (textAsBytes Qt sb str) = str) \<and>
   (bytesAsText Qt sb (textAsBytes Qt sb str) = str \<longrightarrow> representable sb str)"
  by (simp add: bytesAsText_def textAsBytes_def Qt_simps representable_def
      QString_utf8_representable QString_latin1_representable)

lemma QString_examples:
  "QString_toUtf8 [0x63, 0xE9, 0x20AC, 0xD83D, 0xDE00] =
     [0x63, 0xC3, 0xA9, 0xE2, 0x82, 0xAC, 0xF0, 0x9F, 0x98, 0x80]"
  "utf8_representable [0x63, 0xE9, 0x20AC, 0xD83D, 0xDE00]"
  "QString_toLatin1 [0x63, 0xE9] = [0x63, 0xE9]"
  "latin1_representable [0x63, 0xE9]"
  "QString_fromLatin1 (QString_toLatin1 [0x63, 0x20AC]) = [0x63, 0x3F]"
  "QString_fromUtf8 [0xC3, 0xA9, 0x21] = [0xE9, 0x21]"
  "QString_fromUtf8 [] = []" "QString_fromLatin1 [] = []"
  by (simp_all add: QString_toUtf8_def QString_fromUtf8_def QString_toLatin1_def
      QString_fromLatin1_def utf8_representable_def latin1_representable_def
      utf8_of_def utf16_of_def is_high_def is_low_def is_continuation_def Let_def)

lemma code_pages:
  "SendScintilla (sci cafe) SCI_GETCODEPAGE 0 0 = SC_CP_UTF8"
  "SendScintilla (sci abc) SCI_GETCODEPAGE 0 0 \<noteq> SC_CP_UTF8"
  by (simp_all add: sci_simps cafe_fields abc_fields SC_CP_UTF8_def)

theorem conversions_round_trip_witness:
  "bytesAsText Qt (sci cafe) (textAsBytes Qt (sci cafe) [0x63, 0xE9, 0x20AC, 0xD83D, 0xDE00]) =
     [0x63, 0xE9, 0x20AC, 0xD83D, 0xDE00] \<and>
   textAsBytes Qt (sci cafe) [0x63, 0xE9, 0x20AC, 0xD83D, 0xDE00] =
     [0x63, 0xC3, 0xA9, 0xE2, 0x82, 0xAC, 0xF0, 0x9F, 0x98, 0x80] \<and>
   bytesAsText Qt (sci abc) (textAsBytes Qt (sci abc) [0x63, 0xE9]) = [0x63, 0xE9] \<and>
   textAsBytes Qt (sci abc) [0x63, 0xE9] = [0x63, 0xE9] \<and>
   \<not> representable (sci abc) [0x63, 0x20AC]"
proof -
  note utf8 = conversions_round_trip [of "sci cafe" "[]" "[0x63, 0xE9, 0x20AC, 0xD83D, 0xDE00]"]
  note latin1 = conversions_round_trip [of "sci abc" "[]" "[0x63, 0xE9]"]
  note euro = conversions_round_trip [of "sci abc" "QString_toLatin1 [0x63, 0x20AC]"
      "[0x63, 0x20AC]"]
  have "representable (sci cafe) [0x63, 0xE9, 0x20AC, 0xD83D, 0xDE00]"
    by (simp add: representable_def code_pages QString_examples)
  with utf8 have "bytesAsText Qt (sci cafe) (textAsBytes Qt (sci cafe)
      [0x63, 0xE9, 0x20AC, 0xD83D, 0xDE00]) = [0x63, 0xE9, 0x20AC, 0xD83D, 0xDE00]"
    by blast
  moreover from utf8 have "textAsBytes Qt (sci cafe) [0x63, 0xE9, 0x20AC, 0xD83D, 0xDE00] =
      [0x63, 0xC3, 0xA9, 0xE2, 0x82, 0xAC, 0xF0, 0x9F, 0x98, 0x80]"
    by (simp add: code_pages QString_examples)
  moreover have "representable (sci abc) [0x63, 0xE9]"
    by (simp add: representable_def code_pages QString_examples)
  with latin1 have "bytesAsText Qt (sci abc) (textAsBytes Qt (sci abc) [0x63, 0xE9]) =
      [0x63, 0xE9]"
    by blast
  moreover from latin1 have "textAsBytes Qt (sci abc) [0x63, 0xE9] = [0x63, 0xE9]"
    by (simp add: code_pages QString_examples)
  moreover from euro have "bytesAsText Qt (sci abc) (textAsBytes Qt (sci abc) [0x63, 0x20AC]) =
      [0x63, 0x3F]"
    by (simp add: code_pages QString_examples)
  with euro have "\<not> representable (sci abc) [0x63, 0x20AC]"
    by auto
  ultimately show ?thesis by blast
qed

subsection \<open>The text between two positions\<close>

lemma text_range_stored:
  assumes sb: "characters sb n" "stores_range sb"
    and offsets: "0 \<le> startOffset" "startOffset \<le> endOffset" "endOffset \<le> n"
  shows "text_range qt sb startOffset endOffset =
       Some (bytesAsText qt sb (SendScintilla_buf sb SCI_GETTEXTRANGE
         (textPositionAsPosition sb startOffset) (textPositionAsPosition sb endOffset)))"
    and "int (length (SendScintilla_buf sb SCI_GETTEXTRANGE
         (textPositionAsPosition sb startOffset) (textPositionAsPosition sb endOffset))) =
       textPositionAsPosition sb endOffset - textPositionAsPosition sb startOffset"
proof -
  define byte_start where "byte_start = textPositionAsPosition sb startOffset"
  define byte_end where "byte_end = textPositionAsPosition sb endOffset"
  define stored where "stored = SendScintilla_buf sb SCI_GETTEXTRANGE byte_start byte_end"
  from characters_mono [OF sb(1), of 0 startOffset] offsets
  have "0 \<le> byte_start"
    by (simp add: byte_start_def textPositionAsPosition_0)
  moreover from characters_mono [OF sb(1) offsets] offsets
  have "byte_start \<le> byte_end"
    by (simp add: byte_start_def byte_end_def)
  moreover from characters_mono [OF sb(1), of endOffset n] offsets characters_end [OF sb(1)]
  have "byte_end \<le> SendScintilla sb SCI_GETTEXTLENGTH 0 0"
    by (simp add: byte_end_def)
  ultimately have len: "int (length stored) = byte_end - byte_start"
    using sb(2) unfolding stores_range_def stored_def by simp
  then have "nat (byte_end - byte_start + 1) - 1 = length stored"
    "\<not> byte_end - byte_start + 1 \<le> int (length stored)"
    by simp_all
  then show "text_range qt sb startOffset endOffset =
       Some (bytesAsText qt sb (SendScintilla_buf sb SCI_GETTEXTRANGE
         (textPositionAsPosition sb startOffset) (textPositionAsPosition sb endOffset)))"
    by (simp add: text_range_def Let_def byte_start_def [symmetric] byte_end_def [symmetric]
        stored_def [symmetric])
  from len show "int (length (SendScintilla_buf sb SCI_GETTEXTRANGE
         (textPositionAsPosition sb startOffset) (textPositionAsPosition sb endOffset))) =
       textPositionAsPosition sb endOffset - textPositionAsPosition sb startOffset"
    by (simp add: stored_def byte_start_def byte_end_def)
qed

text \<open>
  On the document engine: the bytes of the characters from \<open>s\<close> up to but not
  including \<open>e\<close>, converted.
\<close>

lemma sci_text_range:
  assumes "s \<le> e" "e \<le> length (chars d)"
  shows "text_range qt (sci d) (int s) (int e) =
     Some (bytesAsText qt (sci d)
       (map fst (concat (map cells (take (e - s) (drop s (chars d)))))))"
proof -
  from assms have "textPositionAsPosition (sci d) (int s) = position_of (chars d) s"
    "textPositionAsPosition (sci d) (int e) = position_of (chars d) e"
    by (simp_all add: sci_textPositionAsPosition)
  with text_range_stored(1) [of "sci d" "int (length (chars d))" "int s" "int e" qt]
    sci_characters [of d] sci_stores_range [of d]
    sci_GetTextRange [OF assms] assms
  show ?thesis
    by (simp add: sci_simps)
qed

lemma sci_text_range_bytes:
  assumes "0 \<le> startOffset" "startOffset \<le> endOffset" "endOffset \<le> int (length (chars d))"
  shows "text_range qt (sci d) startOffset endOffset =
     Some (bytesAsText qt (sci d) (character_bytes d (nat startOffset) (nat endOffset)))"
proof -
  from assms have "nat startOffset \<le> nat endOffset" "nat endOffset \<le> length (chars d)"
    by simp_all
  from sci_text_range [OF this, of qt] assms show ?thesis
    by (simp add: character_bytes_def)
qed

text \<open>
  C5. The text between two text positions is exact. On the document engine, for
  text positions \<open>0 \<le> startOffset \<le> endOffset\<close> up to the number of characters,
  \<open>text\<close> returns the bytes of the characters from \<open>startOffset\<close> up to but not
  including \<open>endOffset\<close>, converted from UTF-8 when the code page is \<open>SC_CP_UTF8\<close> and
  from Latin-1 otherwise; with \<open>startOffset = endOffset\<close> it returns the empty
  string; and where those characters are the bytes of a text the encoding can
  represent, it returns that text.
\<close>

theorem text_range_exact:
  assumes "0 \<le> startOffset" and "startOffset \<le> endOffset"
    and "endOffset \<le> int (length (chars d))"
  shows "text_range Qt (sci d) startOffset endOffset =
       Some (if code_page d = SC_CP_UTF8
             then QString_fromUtf8 (character_bytes d (nat startOffset) (nat endOffset))
             else QString_fromLatin1 (character_bytes d (nat startOffset) (nat endOffset))) \<and>
     (startOffset = endOffset \<longrightarrow> text_range Qt (sci d) startOffset endOffset = Some []) \<and>
     (representable (sci d) str \<and>
      character_bytes d (nat startOffset) (nat endOffset) = textAsBytes Qt (sci d) str \<longrightarrow>
        text_range Qt (sci d) startOffset endOffset = Some str)"
proof -
  note bytes = sci_text_range_bytes [OF assms, of Qt]
  have empty: "QString_fromUtf8 [] = []" "QString_fromLatin1 [] = []"
    by (simp_all add: QString_fromUtf8_def QString_fromLatin1_def)
  have "bytesAsText Qt (sci d) (textAsBytes Qt (sci d) str) = str" if "representable (sci d) str"
    using that
    by (simp add: bytesAsText_def textAsBytes_def Qt_simps representable_def
        QString_utf8_round_trip QString_latin1_round_trip split: if_splits)
  with bytes empty show ?thesis
    by (auto simp: bytesAsText_def Qt_simps sci_simps character_bytes_def)
qed

lemma cafe_character_bytes:
  "character_bytes cafe 3 5 = [0xC3, 0xA9, 0x21]" "character_bytes cafe 4 4 = []"
  by (simp_all add: character_bytes_def cafe_def cells_def)

theorem text_range_exact_witness:
  "text_range Qt (sci cafe) 3 5 = Some [0xE9, 0x21] \<and>
   character_bytes cafe 3 5 = [0xC3, 0xA9, 0x21] \<and>
   text_range Qt (sci cafe) 4 4 = Some []"
proof -
  have n: "(5::int) \<le> int (length (chars cafe))" "(4::int) \<le> int (length (chars cafe))"
    by (simp_all add: cafe_chars)
  from text_range_exact [of 3 5 cafe, OF _ _ n(1)] text_range_exact [of 4 4 cafe, OF _ _ n(2)]
  show ?thesis
    by (simp add: cafe_character_bytes cafe_fields SC_CP_UTF8_def QString_examples)
qed

subsection \<open>Byte positions and text positions\<close>

text \<open>
  On the document engine both conversions go the same way: each takes a number of
  characters to the byte position that many characters into the document.
\<close>

lemma sci_conversions_agree:
  assumes "k \<le> length (chars d)"
  shows "positionAsTextPosition (sci d) (int k) = textPositionAsPosition (sci d) (int k)"
  using assms by (simp add: sci_positionAsTextPosition sci_textPositionAsPosition)

text \<open>
  C1, at an input where the conversions are not inverse. In \<open>cafe\<close> byte 5 is where
  the fifth character starts, text position 4. \<open>positionAsTextPosition\<close> answers 6
  for it, and \<open>textPositionAsPosition\<close> takes 6 to byte 6, not back to 5; the text
  length 6 is converted to 0, so that \<open>characterCount\<close> is 0 for the five characters.
\<close>

theorem conversions_not_inverse:
  "positionAsTextPosition (sci cafe) 5 = 6 \<and>
   textPositionAsPosition (sci cafe) (positionAsTextPosition (sci cafe) 5) = 6 \<and>
   textPositionAsPosition (sci cafe) 4 = 5 \<and>
   characterCount (sci cafe) = 0"
  by code_simp

subsection \<open>The selection and the character at a point\<close>

text \<open>What \<open>selection\<close>, \<open>selectionCount\<close> and \<open>offsetAtPoint\<close> do without the conversion.\<close>

lemma selectionCount_flag: "selectionCount acc = (if is_selection acc then 1 else 0)"
  by (simp add: selectionCount_def)

lemma selection_none:
  "selectionIndex \<noteq> 0 \<or> \<not> is_selection acc \<Longrightarrow> selection sb acc selectionIndex = (0, 0)"
  by (auto simp: selection_def)

lemma offsetAtPoint_negative:
  "SendScintilla sb SCI_POSITIONFROMPOINT (fst (mapFromGlobal sb point))
     (snd (mapFromGlobal sb point)) < 0 \<Longrightarrow> offsetAtPoint sb point = - 1"
  by (simp add: offsetAtPoint_def Let_def)

text \<open>
  C7, at an input where the selection is not in text positions. In \<open>cafe_end\<close> the
  engine's selection is from byte 1 to byte 5, the text positions 1 and 4 (the
  character at text position 4 starts at byte 5). \<open>selection\<close> stores 1 and 6.
\<close>

theorem selection_not_text_positions:
  "SendScintilla (sci cafe_end) SCI_GETSELECTIONSTART 0 0 = 1 \<and>
   SendScintilla (sci cafe_end) SCI_GETSELECTIONEND 0 0 = 5 \<and>
   selection (sci cafe_end) \<lparr>widget = 7, current_cursor_position = 3, is_selection = True\<rparr> 0 =
     (1, 6) \<and>
   textPositionAsPosition (sci cafe_end) 1 = 1 \<and>
   textPositionAsPosition (sci cafe_end) 4 = 5"
  by code_simp

text \<open>
  C6, at an input where the offset is not a text position. In \<open>cafe_end\<close> the engine
  answers byte 5 for the point, the start of the character at text position 4.
  \<open>offsetAtPoint\<close> returns 6.
\<close>

theorem offsetAtPoint_not_text_position:
  "SendScintilla (sci cafe_end) SCI_POSITIONFROMPOINT 40 5 = 5 \<and>
   offsetAtPoint (sci cafe_end) (140, 205) = 6 \<and>
   textPositionAsPosition (sci cafe_end) 4 = 5"
  by code_simp

end
